theory Spec2Isabelle
  imports Complex_Main "HOL-Library.Sublist"
begin

section \<open>Strings\<close>

text \<open>
  Python \<open>str\<close> values are modelled as \<open>string\<close> (lists of 8-bit characters): ASCII text
  as it stands, text beyond ASCII as its UTF-8 bytes. The string operations the handlers
  use are written out below with Python's meaning: \<open>sep.join(xs)\<close>, \<open>s.split(sep)\<close>
  (leftmost, non-overlapping occurrences of a non-empty separator), \<open>s.replace(old, new)\<close>,
  \<open>k in s\<close> (substring test) and \<open>s.lower()\<close>. \<open>lower\<close> maps the letters A to Z and leaves
  every other byte as it is; Python's \<open>str.lower\<close> also changes letters beyond ASCII, whose
  bytes the model keeps.
\<close>

fun join :: "string \<Rightarrow> string list \<Rightarrow> string" where
  "join sep [] = []"
| "join sep [x] = x"
| "join sep (x # y # ys) = x @ sep @ join sep (y # ys)"

function split_from :: "string \<Rightarrow> string \<Rightarrow> string \<Rightarrow> string list" where
  "split_from sep cur s =
     (if s = [] then [rev cur]
      else if sep \<noteq> [] \<and> prefix sep s then rev cur # split_from sep [] (drop (length sep) s)
      else split_from sep (hd s # cur) (tl s))"
  by pat_completeness auto
termination
  by (relation "measure (\<lambda>(sep, cur, s). length s)") auto

declare split_from.simps [simp del]

definition split :: "string \<Rightarrow> string \<Rightarrow> string list" where
  "split s sep = split_from sep [] s"

function replace_from :: "string \<Rightarrow> string \<Rightarrow> string \<Rightarrow> string" where
  "replace_from old new s =
     (if s = [] then []
      else if old \<noteq> [] \<and> prefix old s then new @ replace_from old new (drop (length old) s)
      else hd s # replace_from old new (tl s))"
  by pat_completeness auto
termination
  by (relation "measure (\<lambda>(old, new, s). length s)") auto

declare replace_from.simps [simp del]

definition replace :: "string \<Rightarrow> string \<Rightarrow> string \<Rightarrow> string" where
  "replace s old new =
     (if old = [] then new @ concat (map (\<lambda>c. c # new) s) else replace_from old new s)"

primrec is_in :: "string \<Rightarrow> string \<Rightarrow> bool" where
  "is_in k [] = (k = [])"
| "is_in k (c # cs) = (prefix k (c # cs) \<or> is_in k cs)"

definition lower_char :: "char \<Rightarrow> char" where
  "lower_char c =
     (if (65::nat) \<le> of_char c \<and> (of_char c :: nat) \<le> 90
      then char_of ((of_char c :: nat) + 32) else c)"

definition lower :: "string \<Rightarrow> string" where
  "lower s = map lower_char s"

section \<open>Query Normalizer\<close>

definition generic_roots :: "string set" where
  "generic_roots = {''ABB Products'', ''All Categories'', ''Products''}"

definition filtered_parts :: "string \<Rightarrow> string list" where
  "filtered_parts full_path = filter (\<lambda>p. p \<notin> generic_roots) (split full_path '' > '')"

definition clean_category_path :: "string \<Rightarrow> string" where
  "clean_category_path full_path = join '' '' (filtered_parts full_path)"

section \<open>Catalog Matcher\<close>

text \<open>
  A catalog entry is the dict \<open>{'title': ..., 'download_url': ...}\<close>. The table
  \<open>product_database\<close> is a dict literal; Python iterates \<open>.items()\<close> in declaration order, so
  the table is an association list. One title of the \<open>rectifier\<close> group holds three
  characters beyond ASCII, written here as the UTF-8 bytes of the source file.
\<close>

record product =
  title :: string
  download_url :: string

definition ABB_LIBRARY_URL :: string where
  "ABB_LIBRARY_URL = ''https://library.abb.com''"

definition doc_url :: "string \<Rightarrow> string" where
  "doc_url doc_id =
     ''https://search.abb.com/library/Download.aspx?DocumentID='' @ doc_id
       @ ''&LanguageCode=en&Action=Launch''"

definition product_database :: "(string \<times> product list) list" where
  "product_database =
   [(''hpr'',
      [\<lparr>title = ''High Power Rectifiers for primary aluminum smelting'',
        download_url = doc_url ''3BHS352574''\<rparr>,
       \<lparr>title = ''High power rectifiers - Product portfolio overview'',
        download_url = doc_url ''9AKK107492A3182''\<rparr>,
       \<lparr>title = ''High Power Rectifiers for Hydrogen Production'',
        download_url = doc_url ''9AKK107992A8938''\<rparr>,
       \<lparr>title = ''High Power Rectifiers for the Chlor-Alkali industry'',
        download_url = doc_url ''3BHS352575''\<rparr>,
       \<lparr>title = ''Service for high power rectifiers'',
        download_url = doc_url ''3BHS505186''\<rparr>]),
    (''rectifier'',
      [\<lparr>title = ''MCR1000 Medium Current Rectifier'',
        download_url = doc_url ''3BHS546772E01''\<rparr>,
       \<lparr>title = ''Compact Rectifier ''
          @ [CHR 0xC3, CHR 0xA2, CHR 0xE2, CHR 0x82, CHR 0xAC, CHR 0xE2, CHR 0x80, CHR 0x9C]
          @ '' Water Cooled'',
        download_url = doc_url ''9AKK108467A6325''\<rparr>,
       \<lparr>title = ''Compact Rectifier CRW Series'',
        download_url = doc_url ''9AKK107046A7093''\<rparr>,
       \<lparr>title = ''Compact Rectifier CRA Series'',
        download_url = doc_url ''9AKK107046A7092''\<rparr>]),
    (''mcr'',
      [\<lparr>title = ''MCR1000 Medium Current Rectifier'',
        download_url = doc_url ''3BHS546772E01''\<rparr>]),
    (''drive'',
      [\<lparr>title = ''ACS880 primary control program firmware manual'',
        download_url = doc_url ''3AUA0000085967''\<rparr>,
       \<lparr>title = ''ACS580 User Manual'',
        download_url = doc_url ''3AUA0000064448''\<rparr>,
       \<lparr>title = ''ACS380 Machinery Drive Manual'',
        download_url = doc_url ''3AUA0000117344''\<rparr>]),
    (''robot'',
      [\<lparr>title = ''IRB 6700 Product Manual'',
        download_url = doc_url ''3HAC052982-001''\<rparr>,
       \<lparr>title = ''IRC5 Controller Product Manual'',
        download_url = doc_url ''3HAC050945-001''\<rparr>]),
    (''motor'',
      [\<lparr>title = ''ABB Motors and Generators Catalog'',
        download_url = doc_url ''9AKK105713A8893''\<rparr>,
       \<lparr>title = ''Low voltage motors IEC Technical Catalog'',
        download_url = doc_url ''9AKK107045A4890''\<rparr>])]"

text \<open>
  The two nested loops of \<open>search_products\<close>, threading the list \<open>products\<close> and the set
  \<open>seen_titles\<close>: \<open>add_prods\<close> is the inner loop over one keyword's entries,
  \<open>match_keywords\<close> the outer loop over the table.
\<close>

primrec add_prods ::
  "product list \<Rightarrow> product list \<times> string set \<Rightarrow> product list \<times> string set" where
  "add_prods [] st = st"
| "add_prods (p # prods) st =
     add_prods prods
       (if title p \<notin> snd st then (fst st @ [p], insert (title p) (snd st)) else st)"

primrec match_keywords ::
  "(string \<times> product list) list \<Rightarrow> string \<Rightarrow> product list \<times> string set
     \<Rightarrow> product list \<times> string set" where
  "match_keywords [] query_lower st = st"
| "match_keywords (kv # rest) query_lower st =
     match_keywords rest query_lower
       (if is_in (fst kv) query_lower then add_prods (snd kv) st else st)"

definition search_url_of :: "string \<Rightarrow> string" where
  "search_url_of search_query =
     ABB_LIBRARY_URL @ ''/r?cid=pscat&lang=en&q='' @ replace search_query '' '' ''%20''"

text \<open>
  The Catalog Matcher as the specification words it: the entries of the keyword groups
  whose keyword is a substring of the query, in table order, and of these the first
  occurrence of each title.
\<close>

definition matching_entries :: "string \<Rightarrow> product list" where
  "matching_entries query_lower =
     concat (map snd (filter (\<lambda>kv. sublist (fst kv) query_lower) product_database))"

fun first_by_title :: "product list \<Rightarrow> product list" where
  "first_by_title [] = []"
| "first_by_title (p # ps) = p # first_by_title (filter (\<lambda>q. title q \<noteq> title p) ps)"

section \<open>Requests and responses\<close>

text \<open>
  A parsed JSON value. \<open>truthy\<close> is Python's truth value of it, the test behind
  \<open>if not full_path\<close>. A parsed object has unique keys, so \<open>map_of\<close> reads it.
\<close>

datatype json =
    JNull
  | JBool bool
  | JInt int
  | JFloat real
  | JStr string
  | JArr "json list"
  | JObj "(string \<times> json) list"

fun truthy :: "json \<Rightarrow> bool" where
  "truthy JNull = False"
| "truthy (JBool b) = b"
| "truthy (JInt i) = (i \<noteq> 0)"
| "truthy (JFloat r) = (r \<noteq> 0)"
| "truthy (JStr s) = (s \<noteq> [])"
| "truthy (JArr xs) = (xs \<noteq> [])"
| "truthy (JObj kvs) = (kvs \<noteq> [])"

text \<open>
  Exceptions are values. \<open>AttributeError v a\<close>: the value \<open>v\<close> has no attribute \<open>a\<close>;
  \<open>HTTPError c\<close>: \<open>raise_for_status\<close> on the status code \<open>c\<close>; \<open>Raised m\<close>: any exception of
  a library or of the network, with its message.
\<close>

datatype exn = AttributeError json string | HTTPError nat | Raised string

fun dict_get :: "json \<Rightarrow> string \<Rightarrow> json \<Rightarrow> exn + json" where
  "dict_get (JObj kvs) k d = Inr (case map_of kvs k of Some v \<Rightarrow> v | None \<Rightarrow> d)"
| "dict_get v k d = Inl (AttributeError v ''get'')"

text \<open>
  Of a request the handlers read \<open>req.method\<close> and \<open>req.get_json()\<close>, which raises or returns
  the parsed body. A response body is the serialised dict: \<open>ErrorBody m\<close> is
  \<open>{"error": m}\<close>, \<open>ExnBody e\<close> is \<open>{"error": str(e)}\<close>, \<open>SearchBody ps q u\<close> is
  \<open>{"products": ps, "query": q, "search_url": u}\<close>, \<open>IngestBody u n\<close> is
  \<open>{"file_uri": u, "file_name": n, "status": "success"}\<close> and \<open>ChatBody t\<close> is
  \<open>{"response": t, "status": "success"}\<close>. A response built without a status has
  the default 200.
\<close>

record request =
  req_method :: string
  get_json :: "exn + json"

datatype body =
    Text string
  | ErrorBody string
  | ExnBody exn
  | SearchBody "product list" string string
  | IngestBody string string
  | ChatBody "string option"

record response =
  status :: nat
  content_type :: "string option"
  body :: body

definition options_response :: response where
  "options_response = \<lparr>status = 204, content_type = None, body = Text []\<rparr>"

definition json_response :: "nat \<Rightarrow> body \<Rightarrow> response" where
  "json_response code b =
     \<lparr>status = code, content_type = Some ''application/json'', body = b\<rparr>"

section \<open>search_products\<close>

definition search_try :: "request \<Rightarrow> exn + response" where
  "search_try req =
     (case get_json req of
        Inl e \<Rightarrow> Inl e
      | Inr data \<Rightarrow>
          (case dict_get data ''full_path'' (JStr []) of
             Inl e \<Rightarrow> Inl e
           | Inr full_path \<Rightarrow>
               if \<not> truthy full_path
               then Inr (json_response 400 (ErrorBody ''Missing full_path parameter''))
               else (case full_path of
                       JStr p \<Rightarrow>
                         (let search_query = clean_category_path p;
                              query_lower = lower search_query;
                              products = fst (match_keywords product_database query_lower ([], {}));
                              search_url = search_url_of search_query
                          in Inr (json_response 200
                                    (SearchBody (take 10 products) search_query search_url)))
                     | _ \<Rightarrow> Inl (AttributeError full_path ''split''))))"

definition search_products :: "request \<Rightarrow> response" where
  "search_products req =
     (if req_method req = ''OPTIONS'' then options_response
      else (case search_try req of
              Inl e \<Rightarrow> json_response 500 (ExnBody e)
            | Inr r \<Rightarrow> r))"

section \<open>The external world\<close>

text \<open>
  \<open>ingest_manual\<close> and \<open>chat_agent\<close> call the network, an HTML parser, the file store and
  the generation service. Each call is an event of a trace, and each answer comes from a
  \<open>world\<close>: a record of the environment variables and of one function per external
  call. A network or service answer may depend on the events so far, so the same call can
  answer differently the second time. A call that raises answers \<open>Inl\<close>.
  \<^item> \<open>requests_get\<close>: \<open>requests.get(url, headers=headers, timeout=60)\<close>;
  \<^item> \<open>find_iframe\<close>: \<open>BeautifulSoup(text, 'lxml').find('iframe', id='mainFrame')\<close> and the
    \<open>src\<close> attribute of the frame found: \<open>None\<close> for no such frame, \<open>Some None\<close> for a frame
    with no \<open>src\<close>;
  \<^item> \<open>tmp_open\<close>, \<open>tmp_name\<close>: the exception, if any, with which
    \<open>tempfile.NamedTemporaryFile(suffix=".pdf", delete=False)\<close> fails to create the file,
    and the name it chooses;
  \<^item> \<open>tmp_write\<close>: the exception, if any, with which \<open>tmp_file.write(pdf_content)\<close> or the
    closing of the file at the end of the \<open>with\<close> block fails;
  \<^item> \<open>files_upload\<close>, \<open>files_get\<close>: \<open>client.files.upload(file=path)\<close> and
    \<open>client.files.get(name=name)\<close>;
  \<^item> \<open>part_from_uri\<close>: \<open>types.Part.from_uri(file_uri=uri, mime_type=mime)\<close>;
  \<^item> \<open>generate_content\<close>: \<open>client.models.generate_content(model, contents, config)\<close>
    followed by reading \<open>response.text\<close>.
  The file system is the set of paths that exist. A temporary file that was created exists,
  whether the write succeeded or not, since it is created with \<open>delete=False\<close>;
  \<open>os.unlink\<close> of an existing path succeeds; the external calls leave the file system as
  it is.
\<close>

record http_response =
  status_code :: nat
  content_type_header :: "string option"
  page_text :: string
  page_content :: string

record uploaded_file =
  uf_name :: string
  uf_uri :: string
  uf_state :: string

datatype part = Part json string

datatype content = FilePart part | UserMessage json

datatype event =
    Get json
  | TmpWrite string string
  | Upload string
  | Sleep nat
  | FilesGet string
  | Unlink string
  | PartFromUri json
  | Generate string "content list" string

record world =
  environ :: "string \<Rightarrow> string option"
  requests_get :: "event list \<Rightarrow> json \<Rightarrow> exn + http_response"
  find_iframe :: "string \<Rightarrow> exn + string option option"
  tmp_open :: "exn option"
  tmp_name :: string
  tmp_write :: "string \<Rightarrow> exn option"
  files_upload :: "event list \<Rightarrow> string \<Rightarrow> exn + uploaded_file"
  files_get :: "event list \<Rightarrow> string \<Rightarrow> exn + uploaded_file"
  part_from_uri :: "json \<Rightarrow> string \<Rightarrow> exn + part"
  generate_content :: "event list \<Rightarrow> string \<Rightarrow> content list \<Rightarrow> string \<Rightarrow> exn + string option"

datatype client = Client string

definition get_genai_client :: "world \<Rightarrow> client option" where
  "get_genai_client w =
     (let api_key = (case environ w ''GEMINI_API_KEY'' of Some k \<Rightarrow> k | None \<Rightarrow> [])
      in if api_key \<noteq> [] then Some (Client api_key) else None)"

definition key_missing_response :: response where
  "key_missing_response = json_response 500 (ErrorBody ''Gemini API key not configured'')"

section \<open>ingest_manual\<close>

text \<open>\<open>fetch\<close> is \<open>requests.get\<close> followed by \<open>raise_for_status\<close>.\<close>

definition fetch :: "world \<Rightarrow> event list \<Rightarrow> json \<Rightarrow> (exn + http_response) \<times> event list" where
  "fetch w tr url =
     (case requests_get w tr url of
        Inl e \<Rightarrow> (Inl e, tr @ [Get url])
      | Inr r \<Rightarrow>
          (if 400 \<le> status_code r \<and> status_code r < 600 then Inl (HTTPError (status_code r))
           else Inr r,
           tr @ [Get url]))"

text \<open>The test \<open>iframe and iframe.get('src')\<close>: a frame was found and its \<open>src\<close> is not empty.\<close>

fun iframe_src :: "string option option \<Rightarrow> string option" where
  "iframe_src (Some (Some src)) = (if src \<noteq> [] then Some src else None)"
| "iframe_src _ = None"

text \<open>
  Lines 197 to 223: the PDF bytes, an exception (\<open>Inl\<close>), or the early return of the
  extraction error (\<open>Inr (Inl response)\<close>).
\<close>

definition acquire_pdf ::
  "world \<Rightarrow> event list \<Rightarrow> json \<Rightarrow> (exn + response + string) \<times> event list" where
  "acquire_pdf w tr url =
     (case fetch w tr url of
        (Inl e, tr1) \<Rightarrow> (Inl e, tr1)
      | (Inr page_response, tr1) \<Rightarrow>
          (let ctype =
                 (case content_type_header page_response of Some c \<Rightarrow> c | None \<Rightarrow> [])
           in if is_in ''text/html'' ctype then
                (case find_iframe w (page_text page_response) of
                   Inl e \<Rightarrow> (Inl e, tr1)
                 | Inr iframe \<Rightarrow>
                     (case iframe_src iframe of
                        Some actual_pdf_url \<Rightarrow>
                          (case fetch w tr1 (JStr actual_pdf_url) of
                             (Inl e, tr2) \<Rightarrow> (Inl e, tr2)
                           | (Inr pdf_response, tr2) \<Rightarrow>
                               (Inr (Inr (page_content pdf_response)), tr2))
                      | None \<Rightarrow>
                          (Inr (Inl (json_response 500
                             (ErrorBody ''Could not find PDF URL in ABB library page''))), tr1)))
              else (Inr (Inr (page_content page_response)), tr1)))"

definition max_wait :: nat where
  "max_wait = 120"

definition wait_interval :: nat where
  "wait_interval = 5"

text \<open>The poll loop of lines 239 to 242, with the file handle, \<open>elapsed\<close> and the trace.\<close>

function poll ::
  "world \<Rightarrow> uploaded_file \<Rightarrow> nat \<Rightarrow> event list \<Rightarrow> (exn + uploaded_file) \<times> event list" where
  "poll w uploaded_file elapsed tr =
     (if uf_state uploaded_file = ''PROCESSING'' \<and> elapsed < max_wait then
        (case files_get w (tr @ [Sleep wait_interval]) (uf_name uploaded_file) of
           Inl e \<Rightarrow> (Inl e, tr @ [Sleep wait_interval, FilesGet (uf_name uploaded_file)])
         | Inr f \<Rightarrow>
             poll w f (elapsed + wait_interval)
               (tr @ [Sleep wait_interval, FilesGet (uf_name uploaded_file)]))
      else (Inr uploaded_file, tr))"
  by pat_completeness auto
termination
  by (relation "measure (\<lambda>(w, f, elapsed, tr). max_wait - elapsed)")
     (auto simp: wait_interval_def)

declare poll.simps [simp del]

text \<open>The body of the inner \<open>try\<close>, lines 231 to 258.\<close>

definition upload_and_poll ::
  "world \<Rightarrow> event list \<Rightarrow> string \<Rightarrow> (exn + response) \<times> event list" where
  "upload_and_poll w tr tmp_path =
     (case files_upload w tr tmp_path of
        Inl e \<Rightarrow> (Inl e, tr @ [Upload tmp_path])
      | Inr uploaded_file \<Rightarrow>
          (case poll w uploaded_file 0 (tr @ [Upload tmp_path]) of
             (Inl e, tr') \<Rightarrow> (Inl e, tr')
           | (Inr f, tr') \<Rightarrow>
               if uf_state f \<noteq> ''ACTIVE''
               then (Inr (json_response 500
                       (ErrorBody (''File processing failed: '' @ uf_state f))), tr')
               else (Inr (json_response 200 (IngestBody (uf_uri f) (uf_name f))), tr')))"

text \<open>
  Lines 225 to 263. The \<open>with\<close> block of lines 226 to 228 stands before the inner \<open>try\<close>:
  when the creation of the temporary file raises, no file exists and the exception leaves
  for the outer handler; when the write raises, the file created with \<open>delete=False\<close>
  stays and the exception leaves for the outer handler, past the \<open>finally\<close> block, which
  belongs to the \<open>try\<close> not yet entered. Otherwise the inner \<open>try\<close> runs, and the
  \<open>finally\<close> block unlinks the file if it exists, whatever the \<open>try\<close> did.
\<close>

definition with_tmp_file ::
  "world \<Rightarrow> event list \<Rightarrow> string set \<Rightarrow> string
     \<Rightarrow> (exn + response) \<times> event list \<times> string set" where
  "with_tmp_file w tr fs pdf_content =
     (case tmp_open w of
        Some e \<Rightarrow> (Inl e, tr, fs)
      | None \<Rightarrow>
          (let tmp_path = tmp_name w;
               fs1 = insert tmp_path fs
           in case tmp_write w pdf_content of
                Some e \<Rightarrow> (Inl e, tr @ [TmpWrite tmp_path pdf_content], fs1)
              | None \<Rightarrow>
                  (let (r, tr') =
                         upload_and_poll w (tr @ [TmpWrite tmp_path pdf_content]) tmp_path
                   in if tmp_path \<in> fs1 then (r, tr' @ [Unlink tmp_path], fs1 - {tmp_path})
                      else (r, tr', fs1))))"

definition ingest_try ::
  "world \<Rightarrow> string set \<Rightarrow> request \<Rightarrow> (exn + response) \<times> event list \<times> string set" where
  "ingest_try w fs req =
     (case get_json req of
        Inl e \<Rightarrow> (Inl e, [], fs)
      | Inr data \<Rightarrow>
          (case dict_get data ''download_url'' (JStr []) of
             Inl e \<Rightarrow> (Inl e, [], fs)
           | Inr url \<Rightarrow>
               if \<not> truthy url
               then (Inr (json_response 400 (ErrorBody ''Missing download_url parameter'')),
                     [], fs)
               else (case acquire_pdf w [] url of
                       (Inl e, tr) \<Rightarrow> (Inl e, tr, fs)
                     | (Inr (Inl r), tr) \<Rightarrow> (Inr r, tr, fs)
                     | (Inr (Inr pdf_content), tr) \<Rightarrow> with_tmp_file w tr fs pdf_content)))"

text \<open>What a handler run leaves: the response, the trace of external calls, the files.\<close>

record outcome =
  response :: response
  trace :: "event list"
  files :: "string set"

definition ingest_manual :: "world \<Rightarrow> string set \<Rightarrow> request \<Rightarrow> outcome" where
  "ingest_manual w fs req =
     (if req_method req = ''OPTIONS'' then \<lparr>response = options_response, trace = [], files = fs\<rparr>
      else (case get_genai_client w of
              None \<Rightarrow> \<lparr>response = key_missing_response, trace = [], files = fs\<rparr>
            | Some client \<Rightarrow>
                (case ingest_try w fs req of
                   (Inl e, tr, fs') \<Rightarrow>
                     \<lparr>response = json_response 500 (ExnBody e), trace = tr, files = fs'\<rparr>
                 | (Inr r, tr, fs') \<Rightarrow> \<lparr>response = r, trace = tr, files = fs'\<rparr>)))"

definition count_gets :: "event list \<Rightarrow> nat" where
  "count_gets tr = length (filter (\<lambda>ev. case ev of FilesGet n \<Rightarrow> True | _ \<Rightarrow> False) tr)"

section \<open>chat_agent\<close>

definition system_prompt :: string where
  "system_prompt =
     ''You are a specialized ABB Technical Support AI.'' @ [CHR 0x0A]
     @ ''You have access to the specific product manual uploaded by the user.'' @ [CHR 0x0A]
     @ ''Answer questions strictly based on the provided file content.'' @ [CHR 0x0A]
     @ ''If the answer is not in the file, politely state that the information is missing from the manual.''
     @ [CHR 0x0A]
     @ ''Be concise, accurate, and helpful. Format technical information clearly.''"

text \<open>
  Lines 313 to 322: the file part, when both fields are truthy and \<open>Part.from_uri\<close> does
  not raise; \<open>except Exception: pass\<close> leaves \<open>contents\<close> empty.
\<close>

definition file_contents :: "world \<Rightarrow> json \<Rightarrow> json \<Rightarrow> content list \<times> event list" where
  "file_contents w file_name file_uri =
     (if truthy file_name \<and> truthy file_uri then
        (case part_from_uri w file_uri ''application/pdf'' of
           Inl e \<Rightarrow> ([], [PartFromUri file_uri])
         | Inr file_part \<Rightarrow> ([FilePart file_part], [PartFromUri file_uri]))
      else ([], []))"

definition chat_try :: "world \<Rightarrow> request \<Rightarrow> (exn + response) \<times> event list" where
  "chat_try w req =
     (case get_json req of
        Inl e \<Rightarrow> (Inl e, [])
      | Inr data \<Rightarrow>
          (case dict_get data ''user_message'' (JStr []) of
             Inl e \<Rightarrow> (Inl e, [])
           | Inr user_message \<Rightarrow>
          (case dict_get data ''file_uri'' (JStr []) of
             Inl e \<Rightarrow> (Inl e, [])
           | Inr file_uri \<Rightarrow>
          (case dict_get data ''file_name'' (JStr []) of
             Inl e \<Rightarrow> (Inl e, [])
           | Inr file_name \<Rightarrow>
               if \<not> truthy user_message
               then (Inr (json_response 400 (ErrorBody ''Missing user_message parameter'')), [])
               else (let (contents0, tr) = file_contents w file_name file_uri;
                         contents = contents0 @ [UserMessage user_message];
                         tr' = tr @ [Generate ''gemini-2.0-flash'' contents system_prompt]
                     in case generate_content w tr ''gemini-2.0-flash'' contents system_prompt of
                          Inl e \<Rightarrow> (Inl e, tr')
                        | Inr txt \<Rightarrow> (Inr (json_response 200 (ChatBody txt)), tr'))))))"

definition chat_agent :: "world \<Rightarrow> request \<Rightarrow> response \<times> event list" where
  "chat_agent w req =
     (if req_method req = ''OPTIONS'' then (options_response, [])
      else (case get_genai_client w of
              None \<Rightarrow> (key_missing_response, [])
            | Some client \<Rightarrow>
                (case chat_try w req of
                   (Inl e, tr) \<Rightarrow> (json_response 500 (ExnBody e), tr)
                 | (Inr r, tr) \<Rightarrow> (r, tr))))"

section \<open>Auxiliary notions for the claims\<close>

text \<open>A required field is missing or empty: the key is absent or its value is falsy.\<close>

definition field_missing :: "(string \<times> json) list \<Rightarrow> string \<Rightarrow> bool" where
  "field_missing kvs k = (case map_of kvs k of None \<Rightarrow> True | Some v \<Rightarrow> \<not> truthy v)"

text \<open>
  A world with no environment variable set, in which every network and service call
  raises and the temporary file can be created and written; the examples below change the
  fields they need.
\<close>

definition offline_world :: world where
  "offline_world =
     \<lparr>environ = (\<lambda>var. None),
      requests_get = (\<lambda>tr url. Inl (Raised ''offline'')),
      find_iframe = (\<lambda>page. Inr None),
      tmp_open = None,
      tmp_name = ''/tmp/tmpk3v9.pdf'',
      tmp_write = (\<lambda>pdf_content. None),
      files_upload = (\<lambda>tr path. Inl (Raised ''offline'')),
      files_get = (\<lambda>tr n. Inl (Raised ''offline'')),
      part_from_uri = (\<lambda>uri mime. Inl (Raised ''invalid uri'')),
      generate_content = (\<lambda>tr model contents instruction. Inl (Raised ''offline''))\<rparr>"

text \<open>
  The invocation reaches the temporary file: it is not \<open>OPTIONS\<close>, the key is set, the body
  carries a truthy \<open>download_url\<close>, and the PDF bytes \<open>pdf\<close> were obtained, with the trace
  \<open>tr\<close> of fetches so far.
\<close>

definition reaches_tmp_file :: "world \<Rightarrow> request \<Rightarrow> event list \<Rightarrow> string \<Rightarrow> bool" where
  "reaches_tmp_file w req tr pdf =
     (req_method req \<noteq> ''OPTIONS'' \<and> get_genai_client w \<noteq> None \<and>
      (case get_json req of
         Inl e \<Rightarrow> False
       | Inr data \<Rightarrow>
           (case dict_get data ''download_url'' (JStr []) of
              Inl e \<Rightarrow> False
            | Inr url \<Rightarrow> truthy url \<and> acquire_pdf w [] url = (Inr (Inr pdf), tr))))"

text \<open>
  The invocation reaches the upload: it reaches the temporary file, and the file is created
  and written without an exception.
\<close>

definition reaches_upload :: "world \<Rightarrow> request \<Rightarrow> event list \<Rightarrow> string \<Rightarrow> bool" where
  "reaches_upload w req tr pdf =
     (reaches_tmp_file w req tr pdf \<and> tmp_open w = None \<and> tmp_write w pdf = None)"

text \<open>The events of \<open>n\<close> iterations of the poll loop, given the names it asked for.\<close>

definition poll_events :: "string list \<Rightarrow> event list" where
  "poll_events names = concat (map (\<lambda>n. [Sleep wait_interval, FilesGet n]) names)"

text \<open>
  What the file store answers along a run of the poll loop, stated from the file store's
  side: starting with the handle \<open>f\<close> and the trace \<open>tr\<close>, the successive status fetches,
  each made after a sleep with the name of the handle fetched last, answer the handles
  \<open>gs\<close> in this order.
\<close>

primrec refetches :: "world \<Rightarrow> uploaded_file \<Rightarrow> event list \<Rightarrow> uploaded_file list \<Rightarrow> bool" where
  "refetches w f tr [] = True"
| "refetches w f tr (g # gs) =
     (files_get w (tr @ [Sleep wait_interval]) (uf_name f) = Inr g \<and>
      refetches w g (tr @ [Sleep wait_interval, FilesGet (uf_name f)]) gs)"

text \<open>
  Worlds and a request for the examples: the key is set and the URL answers with a PDF
  directly; \<open>processing_file\<close> is a handle still in the state \<open>PROCESSING\<close>.
\<close>

definition pdf_world :: world where
  "pdf_world =
     offline_world
       \<lparr>environ := [''GEMINI_API_KEY'' \<mapsto> ''secret''],
        requests_get := (\<lambda>tr url. Inr \<lparr>status_code = 200,
           content_type_header = Some ''application/pdf'',
           page_text = [], page_content = ''%PDF-1.7''\<rparr>)\<rparr>"

definition manual_request :: request where
  "manual_request =
     \<lparr>req_method = ''POST'',
      get_json = Inr (JObj [(''download_url'', JStr ''https://library.abb.com/manual.pdf'')])\<rparr>"

definition processing_file :: uploaded_file where
  "processing_file =
     \<lparr>uf_name = ''files/m1'',
      uf_uri = ''https://generativelanguage.googleapis.com/v1beta/files/m1'',
      uf_state = ''PROCESSING''\<rparr>"

section \<open>Properties of the string operations\<close>

lemma join_Cons: "join sep (x # xs) = (if xs = [] then x else x @ sep @ join sep xs)"
  by (cases xs) simp_all

lemma split_from_Nil: "split_from sep cur [] = [rev cur]"
  by (subst split_from.simps) simp

lemma split_from_hit:
  "s \<noteq> [] \<Longrightarrow> sep \<noteq> [] \<Longrightarrow> prefix sep s \<Longrightarrow>
   split_from sep cur s = rev cur # split_from sep [] (drop (length sep) s)"
  by (subst split_from.simps) simp

lemma split_from_miss:
  "s \<noteq> [] \<Longrightarrow> \<not> (sep \<noteq> [] \<and> prefix sep s) \<Longrightarrow>
   split_from sep cur s = split_from sep (hd s # cur) (tl s)"
  by (subst split_from.simps) auto

lemma split_from_not_Nil: "split_from sep cur s \<noteq> []"
proof (induction sep cur s rule: split_from.induct)
  case (1 sep cur s)
  then show ?case by (subst split_from.simps) auto
qed

lemma split_from_join:
  "sep \<noteq> [] \<Longrightarrow> join sep (split_from sep cur s) = rev cur @ s"
proof (induction sep cur s rule: split_from.induct)
  case (1 sep cur s)
  show ?case
  proof (cases "s = []")
    case True
    then show ?thesis by (simp add: split_from_Nil)
  next
    case False
    note ne = this
    show ?thesis
    proof (cases "prefix sep s")
      case True
      have ds: "sep @ drop (length sep) s = s"
        using True by (auto simp: prefix_def)
      have "join sep (split_from sep [] (drop (length sep) s)) = drop (length sep) s"
        using "1.IH"(1) [OF ne] True "1.prems" by simp
      then show ?thesis
        unfolding split_from_hit [OF ne "1.prems" True]
        by (simp add: join_Cons split_from_not_Nil ds)
    next
      case False
      have "join sep (split_from sep (hd s # cur) (tl s)) = rev (hd s # cur) @ tl s"
        using "1.IH"(2) [OF ne] False "1.prems" by simp
      then show ?thesis
        using ne False by (simp add: split_from_miss)
    qed
  qed
qed

lemma join_split: "sep \<noteq> [] \<Longrightarrow> join sep (split s sep) = s"
  by (simp add: split_def split_from_join)

lemma is_in_sublist: "is_in k s \<longleftrightarrow> sublist k s"
  by (induction s) (auto simp: sublist_Cons_right)

lemma sublist_occurrence:
  assumes "sublist sep (rev cur)" and "sep \<noteq> []"
  shows "\<exists>i<length cur. prefix sep (drop i (rev cur @ s))"
proof -
  from assms(1) obtain ps ss where eq: "rev cur = ps @ sep @ ss"
    by (auto simp: sublist_def)
  have "length (rev cur) = length ps + length sep + length ss"
    by (simp add: eq)
  with assms(2) have "length ps < length cur" by (cases sep) auto
  moreover have "prefix sep (drop (length ps) (rev cur @ s))"
    by (simp add: eq)
  ultimately show ?thesis by blast
qed

lemma split_from_segments:
  "sep \<noteq> [] \<Longrightarrow> \<forall>i<length cur. \<not> prefix sep (drop i (rev cur @ s)) \<Longrightarrow>
   seg \<in> set (split_from sep cur s) \<Longrightarrow> \<not> sublist sep seg"
proof (induction sep cur s rule: split_from.induct)
  case (1 sep cur s)
  have cur_clean: "\<not> sublist sep (rev cur)"
    using sublist_occurrence [of sep cur s] "1.prems"(1,2) by blast
  show ?case
  proof (cases "s = []")
    case True
    with "1.prems"(3) cur_clean show ?thesis by (simp add: split_from_Nil)
  next
    case False
    note ne = this
    show ?thesis
    proof (cases "prefix sep s")
      case True
      from "1.prems"(3) have "seg = rev cur \<or> seg \<in> set (split_from sep [] (drop (length sep) s))"
        by (simp add: split_from_hit [OF ne "1.prems"(1) True])
      then show ?thesis
      proof
        assume "seg = rev cur"
        with cur_clean show ?thesis by simp
      next
        assume "seg \<in> set (split_from sep [] (drop (length sep) s))"
        then show ?thesis
          using "1.IH"(1) [OF ne _ "1.prems"(1)] True "1.prems"(1) by simp
      qed
    next
      case False
      have inv: "\<forall>i<length (hd s # cur). \<not> prefix sep (drop i (rev (hd s # cur) @ tl s))"
      proof (intro allI impI)
        fix i assume "i < length (hd s # cur)"
        then consider "i < length cur" | "i = length cur" by fastforce
        then show "\<not> prefix sep (drop i (rev (hd s # cur) @ tl s))"
        proof cases
          case 1
          then show ?thesis using "1.prems"(2) ne by simp
        next
          case 2
          then show ?thesis using False ne by simp
        qed
      qed
      from "1.prems"(3) have "seg \<in> set (split_from sep (hd s # cur) (tl s))"
        using split_from_miss [of s sep cur] ne False by simp
      then show ?thesis
        using "1.IH"(2) [OF ne _ "1.prems"(1) inv] False by simp
    qed
  qed
qed

lemma split_segments: "sep \<noteq> [] \<Longrightarrow> seg \<in> set (split s sep) \<Longrightarrow> \<not> sublist sep seg"
  using split_from_segments [of sep "[]" s seg] by (simp add: split_def)


lemma split_from_last_segment:
  "sep \<noteq> [] \<Longrightarrow> \<not> sublist sep x \<Longrightarrow> split_from sep cur x = [rev cur @ x]"
proof (induction x arbitrary: cur)
  case Nil
  then show ?case by (simp add: split_from_Nil)
next
  case (Cons c x)
  have np: "\<not> prefix sep (c # x)"
    using Cons.prems(2) by (auto simp: sublist_Cons_right)
  have "\<not> sublist sep x"
    using Cons.prems(2) by (auto simp: sublist_Cons_right)
  with Cons.IH [OF Cons.prems(1), of "c # cur"]
  have "split_from sep (c # cur) x = [rev (c # cur) @ x]" by blast
  then show ?case
    using split_from_miss [of "c # x" sep cur] np by simp
qed

lemma prefix_into_butlast:
  assumes "sep \<noteq> []" and "x \<noteq> []" and "prefix sep (x @ sep @ rest)"
  shows "prefix sep (x @ butlast sep)"
proof -
  have len: "length sep \<le> length (x @ butlast sep)"
    using assms(1,2) by (cases x) auto
  have "x @ sep @ rest = (x @ butlast sep) @ (last sep # rest)"
    using assms(1) by simp
  with assms(3) have "prefix sep ((x @ butlast sep) @ (last sep # rest))" by simp
  with len show ?thesis
    by (metis prefix_length_prefix prefixI)
qed

lemma split_from_next_segment:
  "sep \<noteq> [] \<Longrightarrow> \<not> sublist sep (x @ butlast sep) \<Longrightarrow>
   split_from sep cur (x @ sep @ rest) = (rev cur @ x) # split_from sep [] rest"
proof (induction x arbitrary: cur)
  case Nil
  have "sep @ rest \<noteq> []" using Nil.prems(1) by simp
  then show ?case
    using split_from_hit [of "sep @ rest" sep cur] Nil.prems(1) by simp
next
  case (Cons c x)
  have np: "\<not> prefix sep ((c # x) @ sep @ rest)"
  proof
    assume "prefix sep ((c # x) @ sep @ rest)"
    then have "prefix sep ((c # x) @ butlast sep)"
      using prefix_into_butlast [of sep "c # x" rest] Cons.prems(1) by simp
    then have "sublist sep ((c # x) @ butlast sep)" by (rule prefix_imp_sublist)
    with Cons.prems(2) show False by contradiction
  qed
  have "\<not> sublist sep (x @ butlast sep)"
    using Cons.prems(2) by (auto simp: sublist_Cons_right)
  with Cons.IH [OF Cons.prems(1), of "c # cur"]
  have "split_from sep (c # cur) (x @ sep @ rest) = (rev (c # cur) @ x) # split_from sep [] rest"
    by blast
  then show ?case
    using split_from_miss [of "(c # x) @ sep @ rest" sep cur] np by simp
qed

lemma split_unique:
  "sep \<noteq> [] \<Longrightarrow> segs \<noteq> [] \<Longrightarrow> \<not> sublist sep (last segs) \<Longrightarrow>
   \<forall>seg \<in> set (butlast segs). \<not> sublist sep (seg @ butlast sep) \<Longrightarrow>
   split (join sep segs) sep = segs"
proof (induction segs)
  case Nil
  then show ?case by simp
next
  case (Cons x segs)
  show ?case
  proof (cases "segs = []")
    case True
    with Cons.prems show ?thesis
      using split_from_last_segment [of sep x "[]"] by (simp add: split_def)
  next
    case False
    with Cons.prems have ih: "split (join sep segs) sep = segs" and
      x: "\<not> sublist sep (x @ butlast sep)"
      using Cons.IH by auto
    have "split (join sep (x # segs)) sep = split_from sep [] (x @ sep @ join sep segs)"
      using False by (simp add: split_def join_Cons)
    also have "\<dots> = x # split_from sep [] (join sep segs)"
      using split_from_next_segment [OF Cons.prems(1) x, of "[]" "join sep segs"] by simp
    finally show ?thesis using ih by (simp add: split_def)
  qed
qed

lemma split_from_leftmost:
  "sep \<noteq> [] \<Longrightarrow> \<forall>i<length cur. \<not> prefix sep (drop i (rev cur @ s)) \<Longrightarrow>
   seg \<in> set (butlast (split_from sep cur s)) \<Longrightarrow> \<not> sublist sep (seg @ butlast sep)"
proof (induction sep cur s rule: split_from.induct)
  case (1 sep cur s)
  show ?case
  proof (cases "s = []")
    case True
    with "1.prems"(3) show ?thesis by (simp add: split_from_Nil)
  next
    case False
    note ne = this
    show ?thesis
    proof (cases "prefix sep s")
      case True
      then obtain rest where s: "s = sep @ rest" by (auto simp: prefix_def)
      from "1.prems"(3) have "seg = rev cur \<or> seg \<in> set (butlast (split_from sep [] (drop (length sep) s)))"
        by (simp add: split_from_hit [OF ne "1.prems"(1) True] split_from_not_Nil)
      then show ?thesis
      proof
        assume seg: "seg = rev cur"
        show ?thesis
        proof
          assume "sublist sep (seg @ butlast sep)"
          then obtain ps ss where eq: "rev cur @ butlast sep = ps @ sep @ ss"
            unfolding seg by (auto simp: sublist_def)
          have "length (rev cur @ butlast sep) = length (ps @ sep @ ss)"
            by (simp only: eq)
          then have "length cur + (length sep - 1) = length ps + length sep + length ss"
            by simp
          moreover have "0 < length sep" using "1.prems"(1) by simp
          ultimately have lt: "length ps < length cur" by linarith
          have "rev cur @ s = (rev cur @ butlast sep) @ (last sep # rest)"
            using s "1.prems"(1) by simp
          then have "rev cur @ s = ps @ sep @ (ss @ last sep # rest)"
            by (simp add: eq)
          then have "prefix sep (drop (length ps) (rev cur @ s))" by simp
          with lt "1.prems"(2) show False by blast
        qed
      next
        assume "seg \<in> set (butlast (split_from sep [] (drop (length sep) s)))"
        then show ?thesis
          using "1.IH"(1) [OF ne _ "1.prems"(1)] True "1.prems"(1) by simp
      qed
    next
      case False
      have inv: "\<forall>i<length (hd s # cur). \<not> prefix sep (drop i (rev (hd s # cur) @ tl s))"
      proof (intro allI impI)
        fix i assume "i < length (hd s # cur)"
        then consider "i < length cur" | "i = length cur" by fastforce
        then show "\<not> prefix sep (drop i (rev (hd s # cur) @ tl s))"
        proof cases
          case 1
          then show ?thesis using "1.prems"(2) ne by simp
        next
          case 2
          then show ?thesis using False ne by simp
        qed
      qed
      from "1.prems"(3) have "seg \<in> set (butlast (split_from sep (hd s # cur) (tl s)))"
        using split_from_miss [of s sep cur] ne False by simp
      then show ?thesis
        using "1.IH"(2) [OF ne _ "1.prems"(1) inv] False by simp
    qed
  qed
qed

lemma split_leftmost:
  "sep \<noteq> [] \<Longrightarrow> seg \<in> set (butlast (split s sep)) \<Longrightarrow> \<not> sublist sep (seg @ butlast sep)"
  using split_from_leftmost [of sep "[]" s seg] by (simp add: split_def)

lemma split_not_Nil: "split s sep \<noteq> []"
  by (simp add: split_def split_from_not_Nil)

section \<open>Properties of the catalog loops\<close>


lemma add_prods_fresh:
  "add_prods ps (acc, seen) =
     (acc @ first_by_title (filter (\<lambda>p. title p \<notin> seen) ps), seen \<union> title ` set ps)"
proof (induction ps arbitrary: acc seen)
  case Nil
  then show ?case by simp
next
  case (Cons p ps)
  have comm: "filter (\<lambda>q. title q \<noteq> title p) (filter (\<lambda>q. title q \<notin> seen) ps) =
              filter (\<lambda>q. title q \<notin> insert (title p) seen) ps"
    by (induction ps) auto
  show ?case
  proof (cases "title p \<in> seen")
    case True
    then show ?thesis using Cons.IH [of acc seen] by auto
  next
    case False
    have "first_by_title (filter (\<lambda>q. title q \<notin> seen) (p # ps)) =
          p # first_by_title (filter (\<lambda>q. title q \<notin> insert (title p) seen) ps)"
      using False by (simp add: comm del: filter_filter)
    then show ?thesis using False Cons.IH [of "acc @ [p]" "insert (title p) seen"]
      by (simp del: filter.simps filter_filter first_by_title.simps)
  qed
qed

lemma filter_first_by_title:
  "filter (\<lambda>q. title q \<noteq> t) (first_by_title ps) = first_by_title (filter (\<lambda>q. title q \<noteq> t) ps)"
proof (induction ps rule: first_by_title.induct)
  case 1
  then show ?case by simp
next
  case (2 p ps)
  have sw: "filter (\<lambda>q. title q \<noteq> title p) (filter (\<lambda>q. title q \<noteq> t) ps) =
            filter (\<lambda>q. title q \<noteq> t) (filter (\<lambda>q. title q \<noteq> title p) ps)"
    by (induction ps) auto
  show ?case
  proof (cases "title p = t")
    case True
    have "filter (\<lambda>q. title q \<noteq> t) (filter (\<lambda>q. title q \<noteq> t) ps) = filter (\<lambda>q. title q \<noteq> t) ps"
      by (induction ps) auto
    with True 2 show ?thesis by (simp del: filter_filter)
  next
    case False
    with 2 show ?thesis by (simp add: sw del: filter_filter)
  qed
qed

lemma first_by_title_append:
  "first_by_title (xs @ ys) =
     first_by_title xs @ first_by_title (filter (\<lambda>q. title q \<notin> title ` set xs) ys)"
proof (induction xs arbitrary: ys rule: first_by_title.induct)
  case 1
  then show ?case by simp
next
  case (2 p ps)
  have "filter (\<lambda>q. title q \<notin> title ` set (filter (\<lambda>q. title q \<noteq> title p) ps))
          (filter (\<lambda>q. title q \<noteq> title p) ys) =
        filter (\<lambda>q. title q \<notin> title ` set (p # ps)) ys"
    by (induction ys) auto
  then show ?case using 2 [of "filter (\<lambda>q. title q \<noteq> title p) ys"] by simp
qed

lemma filter_fresh:
  "filter (\<lambda>q. title q \<notin> title ` set (filter (\<lambda>p. title p \<notin> seen) ys))
     (filter (\<lambda>p. title p \<notin> seen) xs) =
   filter (\<lambda>p. title p \<notin> seen \<union> title ` set ys) xs"
  by (induction xs) auto

lemma first_by_title_fresh_append:
  "first_by_title (filter (\<lambda>p. title p \<notin> seen) (ys @ xs)) =
     first_by_title (filter (\<lambda>p. title p \<notin> seen) ys)
     @ first_by_title (filter (\<lambda>p. title p \<notin> seen \<union> title ` set ys) xs)"
  unfolding filter_append first_by_title_append filter_fresh ..

lemma match_keywords_fresh:
  "match_keywords db q (acc, seen) =
     (acc @ first_by_title (filter (\<lambda>p. title p \<notin> seen)
              (concat (map snd (filter (\<lambda>kv. is_in (fst kv) q) db)))),
      seen \<union> title ` set (concat (map snd (filter (\<lambda>kv. is_in (fst kv) q) db))))"
proof (induction db arbitrary: acc seen)
  case Nil
  then show ?case by simp
next
  case (Cons kv db)
  show ?case
  proof (cases "is_in (fst kv) q")
    case True
    have "match_keywords (kv # db) q (acc, seen) =
          match_keywords db q
            (acc @ first_by_title (filter (\<lambda>p. title p \<notin> seen) (snd kv)),
             seen \<union> title ` set (snd kv))"
      using True by (simp add: add_prods_fresh)
    also have "\<dots> =
       (acc @ first_by_title (filter (\<lambda>p. title p \<notin> seen)
                (snd kv @ concat (map snd (filter (\<lambda>kv. is_in (fst kv) q) db)))),
        seen \<union> title ` set (snd kv @ concat (map snd (filter (\<lambda>kv. is_in (fst kv) q) db))))"
      unfolding Cons.IH first_by_title_fresh_append by (simp add: Un_assoc image_Un)
    finally show ?thesis using True by simp
  next
    case False
    then show ?thesis using Cons.IH [of acc seen] by simp
  qed
qed

lemma distinct_first_by_title: "distinct (map title (first_by_title ps))"
proof (induction ps rule: first_by_title.induct)
  case 1
  then show ?case by simp
next
  case (2 p ps)
  have "title p \<notin> title ` set (filter (\<lambda>q. title q \<noteq> title p) (first_by_title ps))"
    by auto
  then show ?case using 2 by (simp add: filter_first_by_title [symmetric])
qed


lemma replace_from_single:
  "replace_from [c] new s = concat (map (\<lambda>x. if x = c then new else [x]) s)"
proof (induction s)
  case Nil
  then show ?case by (subst replace_from.simps) simp
next
  case (Cons x xs)
  then show ?case by (subst replace_from.simps) auto
qed

lemma replace_space:
  "replace s '' '' ''%20'' = concat (map (\<lambda>x. if x = CHR '' '' then ''%20'' else [x]) s)"
  by (simp add: replace_def replace_from_single)

lemma loop_is_first_by_title:
  "fst (match_keywords product_database query_lower ([], {})) =
     first_by_title (matching_entries query_lower)"
  by (simp add: match_keywords_fresh matching_entries_def is_in_sublist)

lemma search_try_str:
  assumes "get_json req = Inr (JObj kvs)"
    and "map_of kvs ''full_path'' = Some (JStr full_path)"
    and "full_path \<noteq> []"
  shows "search_try req =
     Inr (json_response 200
       (SearchBody
          (take 10 (first_by_title (matching_entries (lower (clean_category_path full_path)))))
          (clean_category_path full_path)
          (search_url_of (clean_category_path full_path))))"
  using assms by (simp add: search_try_def Let_def loop_is_first_by_title)

section \<open>The credential check\<close>

lemma client_configured:
  "environ w ''GEMINI_API_KEY'' = Some key \<Longrightarrow> key \<noteq> [] \<Longrightarrow>
   get_genai_client w = Some (Client key)"
  by (simp add: get_genai_client_def)


section \<open>Properties of the poll loop\<close>

lemma poll_stop:
  "\<not> (uf_state f = ''PROCESSING'' \<and> elapsed < max_wait) \<Longrightarrow> poll w f elapsed tr = (Inr f, tr)"
  by (subst poll.simps) auto

lemma poll_raise:
  "uf_state f = ''PROCESSING'' \<Longrightarrow> elapsed < max_wait \<Longrightarrow>
   files_get w (tr @ [Sleep wait_interval]) (uf_name f) = Inl e \<Longrightarrow>
   poll w f elapsed tr = (Inl e, tr @ [Sleep wait_interval, FilesGet (uf_name f)])"
  by (subst poll.simps) simp

lemma poll_again:
  "uf_state f = ''PROCESSING'' \<Longrightarrow> elapsed < max_wait \<Longrightarrow>
   files_get w (tr @ [Sleep wait_interval]) (uf_name f) = Inr g \<Longrightarrow>
   poll w f elapsed tr =
     poll w g (elapsed + wait_interval) (tr @ [Sleep wait_interval, FilesGet (uf_name f)])"
  by (subst poll.simps) simp

lemma poll_events_Cons:
  "poll_events (n # names) = [Sleep wait_interval, FilesGet n] @ poll_events names"
  by (simp add: poll_events_def)

lemma poll_events_Nil: "poll_events [] = []"
  by (simp add: poll_events_def)

lemma count_gets_poll_events: "count_gets (poll_events names) = length names"
  by (induction names) (simp_all add: poll_events_def count_gets_def)

lemma count_gets_append: "count_gets (xs @ ys) = count_gets xs + count_gets ys"
  by (simp add: count_gets_def)

lemma poll_trace:
  "\<exists>names. snd (poll w f elapsed tr) = tr @ poll_events names
     \<and> 5 * length names \<le> 124 - elapsed"
proof (induction w f elapsed tr rule: poll.induct)
  case (1 w f elapsed tr)
  show ?case
  proof (cases "uf_state f = ''PROCESSING'' \<and> elapsed < max_wait")
    case False
    then have "snd (poll w f elapsed tr) = tr @ poll_events []"
      by (simp add: poll_stop poll_events_Nil)
    then show ?thesis by (intro exI [of _ "[]"]) simp
  next
    case True
    show ?thesis
    proof (cases "files_get w (tr @ [Sleep wait_interval]) (uf_name f)")
      case (Inl e)
      have "snd (poll w f elapsed tr) = tr @ poll_events [uf_name f]"
        using True poll_raise [of f elapsed w tr e] Inl by (simp add: poll_events_def)
      moreover have "5 * length [uf_name f] \<le> 124 - elapsed"
        using True by (auto simp: max_wait_def)
      ultimately show ?thesis by blast
    next
      case (Inr g)
      from "1.IH" [OF True Inr] obtain names where
        tr: "snd (poll w g (elapsed + wait_interval)
                    (tr @ [Sleep wait_interval, FilesGet (uf_name f)])) =
             (tr @ [Sleep wait_interval, FilesGet (uf_name f)]) @ poll_events names"
        and len: "5 * length names \<le> 124 - (elapsed + wait_interval)"
        by blast
      have "snd (poll w f elapsed tr) = tr @ poll_events (uf_name f # names)"
        using True poll_again [of f elapsed w tr g] Inr tr by (simp add: poll_events_Cons)
      moreover have "5 * length (uf_name f # names) \<le> 124 - elapsed"
        using len True by (auto simp: max_wait_def wait_interval_def)
      ultimately show ?thesis by blast
    qed
  qed
qed


lemma poll_always_processing:
  assumes busy: "\<forall>h n. \<exists>g. files_get w h n = Inr g \<and> uf_state g = ''PROCESSING''"
  shows "uf_state f = ''PROCESSING'' \<Longrightarrow> k \<le> 24 \<Longrightarrow>
         \<exists>g names. poll w f (5 * k) tr = (Inr g, tr @ poll_events names)
           \<and> uf_state g = ''PROCESSING'' \<and> length names = 24 - k"
proof (induction "24 - k" arbitrary: f k tr)
  case 0
  then have "\<not> (uf_state f = ''PROCESSING'' \<and> 5 * k < max_wait)"
    by (simp add: max_wait_def)
  then have "poll w f (5 * k) tr = (Inr f, tr @ poll_events [])"
    by (simp add: poll_stop poll_events_Nil)
  with 0 show ?case by (intro exI [of _ f] exI [of _ "[]"]) simp
next
  case (Suc m)
  then have lt: "5 * k < max_wait" by (simp add: max_wait_def)
  from busy obtain g where g: "files_get w (tr @ [Sleep wait_interval]) (uf_name f) = Inr g"
    and gs: "uf_state g = ''PROCESSING''" by blast
  have m: "m = 24 - Suc k" and k: "Suc k \<le> 24" using Suc.hyps(2) by simp_all
  from Suc.hyps(1) [OF m gs k, of "tr @ [Sleep wait_interval, FilesGet (uf_name f)]"]
  obtain g' names where
    p: "poll w g (5 * Suc k) (tr @ [Sleep wait_interval, FilesGet (uf_name f)]) =
          (Inr g', (tr @ [Sleep wait_interval, FilesGet (uf_name f)]) @ poll_events names)"
    and s: "uf_state g' = ''PROCESSING''" and l: "length names = 24 - Suc k"
    by blast
  have "5 * k + wait_interval = 5 * Suc k" by (simp add: wait_interval_def)
  with poll_again [OF Suc.prems(1) lt g] p
  have "poll w f (5 * k) tr = (Inr g', tr @ poll_events (uf_name f # names))"
    by (simp add: poll_events_Cons)
  moreover have "length (uf_name f # names) = 24 - k" using l k by simp
  ultimately show ?case using s by blast
qed

text \<open>
  A run of the loop against the answers of the file store: it goes on exactly as long as
  the handle fetched last is \<open>PROCESSING\<close> and fewer than 24 fetches were made, asks
  each time with the name of the handle fetched last, and returns the handle fetched last.
\<close>

lemma poll_run:
  "refetches w f tr gs \<Longrightarrow> \<forall>h\<in>set (butlast (f # gs)). uf_state h = ''PROCESSING'' \<Longrightarrow>
   k + length gs \<le> 24 \<Longrightarrow>
   uf_state (last (f # gs)) \<noteq> ''PROCESSING'' \<or> k + length gs = 24 \<Longrightarrow>
   poll w f (5 * k) tr =
     (Inr (last (f # gs)), tr @ poll_events (map uf_name (butlast (f # gs))))"
proof (induction gs arbitrary: f k tr)
  case Nil
  then have "\<not> (uf_state f = ''PROCESSING'' \<and> 5 * k < max_wait)"
    by (auto simp: max_wait_def)
  then show ?case by (simp add: poll_stop poll_events_Nil)
next
  case (Cons g gs)
  from Cons.prems(1) have g: "files_get w (tr @ [Sleep wait_interval]) (uf_name f) = Inr g"
    and rest: "refetches w g (tr @ [Sleep wait_interval, FilesGet (uf_name f)]) gs"
    by simp_all
  from Cons.prems(2) have s: "uf_state f = ''PROCESSING''"
    and others: "\<forall>h\<in>set (butlast (g # gs)). uf_state h = ''PROCESSING''"
    by simp_all
  from Cons.prems(3) have lt: "5 * k < max_wait" and k: "Suc k + length gs \<le> 24"
    by (simp_all add: max_wait_def)
  from Cons.prems(4) have ex: "uf_state (last (g # gs)) \<noteq> ''PROCESSING'' \<or> Suc k + length gs = 24"
    by simp
  have step: "5 * k + wait_interval = 5 * Suc k" by (simp add: wait_interval_def)
  have "poll w f (5 * k) tr =
          poll w g (5 * Suc k) (tr @ [Sleep wait_interval, FilesGet (uf_name f)])"
    using poll_again [OF s lt g] by (simp only: step)
  also have "\<dots> = (Inr (last (g # gs)),
      (tr @ [Sleep wait_interval, FilesGet (uf_name f)])
        @ poll_events (map uf_name (butlast (g # gs))))"
    by (rule Cons.IH [OF rest others k ex])
  finally show ?case by (simp add: poll_events_Cons)
qed

lemma poll_run_raise:
  "refetches w f tr gs \<Longrightarrow> \<forall>h\<in>set (f # gs). uf_state h = ''PROCESSING'' \<Longrightarrow>
   k + length gs < 24 \<Longrightarrow>
   files_get w (tr @ poll_events (map uf_name (butlast (f # gs))) @ [Sleep wait_interval])
     (uf_name (last (f # gs))) = Inl e \<Longrightarrow>
   poll w f (5 * k) tr = (Inl e, tr @ poll_events (map uf_name (f # gs)))"
proof (induction gs arbitrary: f k tr)
  case Nil
  then have s: "uf_state f = ''PROCESSING''" and lt: "5 * k < max_wait"
    and e: "files_get w (tr @ [Sleep wait_interval]) (uf_name f) = Inl e"
    by (simp_all add: max_wait_def poll_events_Nil)
  show ?case using poll_raise [OF s lt e] by (simp add: poll_events_Cons poll_events_Nil)
next
  case (Cons g gs)
  from Cons.prems(1) have g: "files_get w (tr @ [Sleep wait_interval]) (uf_name f) = Inr g"
    and rest: "refetches w g (tr @ [Sleep wait_interval, FilesGet (uf_name f)]) gs"
    by simp_all
  from Cons.prems(2) have s: "uf_state f = ''PROCESSING''"
    and others: "\<forall>h\<in>set (g # gs). uf_state h = ''PROCESSING''"
    by simp_all
  from Cons.prems(3) have lt: "5 * k < max_wait" and k: "Suc k + length gs < 24"
    by (simp_all add: max_wait_def)
  from Cons.prems(4) have e:
    "files_get w ((tr @ [Sleep wait_interval, FilesGet (uf_name f)])
        @ poll_events (map uf_name (butlast (g # gs))) @ [Sleep wait_interval])
      (uf_name (last (g # gs))) = Inl e"
    by (simp add: poll_events_Cons)
  have step: "5 * k + wait_interval = 5 * Suc k" by (simp add: wait_interval_def)
  have "poll w f (5 * k) tr =
          poll w g (5 * Suc k) (tr @ [Sleep wait_interval, FilesGet (uf_name f)])"
    using poll_again [OF s lt g] by (simp only: step)
  also have "\<dots> = (Inl e,
      (tr @ [Sleep wait_interval, FilesGet (uf_name f)]) @ poll_events (map uf_name (g # gs)))"
    by (rule Cons.IH [OF rest others k e])
  finally show ?case by (simp add: poll_events_Cons)
qed

section \<open>The trace of an ingestion\<close>

lemma fetch_trace: "snd (fetch w tr url) = tr @ [Get url]"
  by (simp add: fetch_def split: sum.splits)

lemma fetch_sndD: "fetch w tr url = (r, tr') \<Longrightarrow> tr' = tr @ [Get url]"
  using fetch_trace [of w tr url] by simp

lemma acquire_pdf_trace:
  "snd (acquire_pdf w tr url) = tr @ [Get url]
   \<or> (\<exists>u. snd (acquire_pdf w tr url) = tr @ [Get url, Get u])"
  by (auto simp: acquire_pdf_def Let_def split: sum.splits option.splits prod.splits
      dest!: fetch_sndD)

lemma acquire_pdf_gets: "\<exists>urls. snd (acquire_pdf w tr url) = tr @ map Get urls"
proof -
  have "tr @ [Get url] = tr @ map Get [url]" and "\<And>u. tr @ [Get url, Get u] = tr @ map Get [url, u]"
    by simp_all
  then show ?thesis using acquire_pdf_trace [of w tr url] by metis
qed

lemma upload_and_poll_trace:
  "\<exists>names. snd (upload_and_poll w tr p) = tr @ Upload p # poll_events names
     \<and> length names \<le> 24"
proof (cases "files_upload w tr p")
  case (Inl e)
  then have "snd (upload_and_poll w tr p) = tr @ Upload p # poll_events []"
    by (simp add: upload_and_poll_def poll_events_Nil)
  then show ?thesis by (intro exI [of _ "[]"]) simp
next
  case (Inr f)
  obtain names where n: "snd (poll w f 0 (tr @ [Upload p])) = (tr @ [Upload p]) @ poll_events names"
    and l: "5 * length names \<le> 124 - 0"
    using poll_trace [of w f 0 "tr @ [Upload p]"] by blast
  have "snd (upload_and_poll w tr p) = snd (poll w f 0 (tr @ [Upload p]))"
    using Inr by (simp add: upload_and_poll_def split: prod.splits sum.splits)
  with n have "snd (upload_and_poll w tr p) = tr @ Upload p # poll_events names" by simp
  moreover from l have "length names \<le> 24" by simp
  ultimately show ?thesis by blast
qed

lemma with_tmp_file_open_failed:
  "tmp_open w = Some e \<Longrightarrow> with_tmp_file w tr fs pdf = (Inl e, tr, fs)"
  by (simp add: with_tmp_file_def)

lemma with_tmp_file_write_failed:
  "tmp_open w = None \<Longrightarrow> tmp_write w pdf = Some e \<Longrightarrow>
   with_tmp_file w tr fs pdf =
     (Inl e, tr @ [TmpWrite (tmp_name w) pdf], insert (tmp_name w) fs)"
  by (simp add: with_tmp_file_def Let_def)

lemma with_tmp_file_eq:
  "tmp_open w = None \<Longrightarrow> tmp_write w pdf = None \<Longrightarrow>
   with_tmp_file w tr fs pdf =
     (fst (upload_and_poll w (tr @ [TmpWrite (tmp_name w) pdf]) (tmp_name w)),
      snd (upload_and_poll w (tr @ [TmpWrite (tmp_name w) pdf]) (tmp_name w))
        @ [Unlink (tmp_name w)],
      fs - {tmp_name w})"
  by (simp add: with_tmp_file_def Let_def split: prod.splits)

lemma ingest_manual_at_tmp_file:
  assumes "reaches_tmp_file w req tr pdf"
  shows "ingest_manual w fs req =
     (case with_tmp_file w tr fs pdf of
        (Inl e, tr', fs') \<Rightarrow>
          \<lparr>response = json_response 500 (ExnBody e), trace = tr', files = fs'\<rparr>
      | (Inr r, tr', fs') \<Rightarrow> \<lparr>response = r, trace = tr', files = fs'\<rparr>)"
  using assms
  by (auto simp: reaches_tmp_file_def ingest_manual_def ingest_try_def split: sum.splits)

lemma ingest_manual_open_failed:
  assumes "reaches_tmp_file w req tr pdf" and "tmp_open w = Some e"
  shows "ingest_manual w fs req =
     \<lparr>response = json_response 500 (ExnBody e), trace = tr, files = fs\<rparr>"
  by (simp add: ingest_manual_at_tmp_file [OF assms(1)] with_tmp_file_open_failed [OF assms(2)])

lemma ingest_manual_write_failed:
  assumes "reaches_tmp_file w req tr pdf" and "tmp_open w = None" and "tmp_write w pdf = Some e"
  shows "ingest_manual w fs req =
     \<lparr>response = json_response 500 (ExnBody e),
      trace = tr @ [TmpWrite (tmp_name w) pdf],
      files = insert (tmp_name w) fs\<rparr>"
  by (simp add: ingest_manual_at_tmp_file [OF assms(1)]
      with_tmp_file_write_failed [OF assms(2,3)])

lemma ingest_manual_reached:
  assumes "reaches_upload w req tr pdf"
  shows "ingest_manual w fs req =
     \<lparr>response =
        (case fst (upload_and_poll w (tr @ [TmpWrite (tmp_name w) pdf]) (tmp_name w)) of
           Inl e \<Rightarrow> json_response 500 (ExnBody e)
         | Inr r \<Rightarrow> r),
      trace = snd (upload_and_poll w (tr @ [TmpWrite (tmp_name w) pdf]) (tmp_name w))
                @ [Unlink (tmp_name w)],
      files = fs - {tmp_name w}\<rparr>"
proof -
  from assms have r: "reaches_tmp_file w req tr pdf" and o: "tmp_open w = None"
    and wr: "tmp_write w pdf = None"
    by (simp_all add: reaches_upload_def)
  show ?thesis
    by (simp add: ingest_manual_at_tmp_file [OF r] with_tmp_file_eq [OF o wr] split: sum.splits)
qed

text \<open>
  The runs of \<open>ingest_manual\<close> by their traces: a run that ends before the temporary file
  is written, a run whose write raises, and a run that enters the inner \<open>try\<close>.
\<close>

lemma ingest_manual_shape:
  "(\<exists>urls. trace (ingest_manual w fs req) = map Get urls \<and> files (ingest_manual w fs req) = fs)
   \<or> (\<exists>urls pdf e.
        trace (ingest_manual w fs req) = map Get urls @ [TmpWrite (tmp_name w) pdf]
        \<and> tmp_write w pdf = Some e
        \<and> files (ingest_manual w fs req) = insert (tmp_name w) fs)
   \<or> (\<exists>urls pdf names.
        trace (ingest_manual w fs req) =
          map Get urls @ TmpWrite (tmp_name w) pdf # Upload (tmp_name w) # poll_events names
            @ [Unlink (tmp_name w)]
        \<and> length names \<le> 24
        \<and> tmp_write w pdf = None
        \<and> files (ingest_manual w fs req) = fs - {tmp_name w})"
  (is "?A \<or> ?B \<or> ?C")
proof (cases "\<exists>tr pdf. reaches_tmp_file w req tr pdf")
  case True
  then obtain tr pdf where r: "reaches_tmp_file w req tr pdf" by blast
  then obtain url where "acquire_pdf w [] url = (Inr (Inr pdf), tr)"
    by (auto simp: reaches_tmp_file_def split: sum.splits)
  with acquire_pdf_gets [of w "[]" url] obtain urls where tr: "tr = map Get urls" by auto
  show ?thesis
  proof (cases "tmp_open w")
    case (Some e)
    have ?A
      by (auto simp: ingest_manual_open_failed [OF r Some] tr)
    then show ?thesis by (rule disjI1)
  next
    case None
    show ?thesis
    proof (cases "tmp_write w pdf")
      case (Some e)
      have ?B
        using Some by (auto simp: ingest_manual_write_failed [OF r None Some] tr)
      then show ?thesis by (intro disjI2 disjI1)
    next
      case wr: None
      have ru: "reaches_upload w req tr pdf"
        using r None wr by (simp add: reaches_upload_def)
      obtain names where
        n: "snd (upload_and_poll w (tr @ [TmpWrite (tmp_name w) pdf]) (tmp_name w)) =
              (tr @ [TmpWrite (tmp_name w) pdf]) @ Upload (tmp_name w) # poll_events names"
        and l: "length names \<le> 24"
        using upload_and_poll_trace by blast
      have "trace (ingest_manual w fs req) =
              map Get urls @ TmpWrite (tmp_name w) pdf # Upload (tmp_name w) # poll_events names
                @ [Unlink (tmp_name w)]"
        using n by (simp add: ingest_manual_reached [OF ru] tr)
      moreover have "files (ingest_manual w fs req) = fs - {tmp_name w}"
        by (simp add: ingest_manual_reached [OF ru])
      ultimately have ?C using l wr by blast
      then show ?thesis by (intro disjI2)
    qed
  qed
next
  case False
  have ?A
  proof (cases "req_method req = ''OPTIONS'' \<or> get_genai_client w = None")
    case True
    then show ?thesis
      by (auto simp: ingest_manual_def intro: exI [of _ "[]"])
  next
    case nt: False
    show ?thesis
    proof (cases "get_json req")
      case (Inl e)
      then show ?thesis using nt
        by (auto simp: ingest_manual_def ingest_try_def intro: exI [of _ "[]"])
    next
      case (Inr data)
      show ?thesis
      proof (cases "dict_get data ''download_url'' (JStr [])")
        case (Inl e)
        then show ?thesis using nt Inr
          by (auto simp: ingest_manual_def ingest_try_def intro: exI [of _ "[]"])
      next
        case url: (Inr url)
        show ?thesis
        proof (cases "truthy url")
          case False
          then show ?thesis using nt Inr url
            by (auto simp: ingest_manual_def ingest_try_def intro: exI [of _ "[]"])
        next
          case True
          obtain urls where u: "snd (acquire_pdf w [] url) = map Get urls"
            using acquire_pdf_gets [of w "[]" url] by auto
          have "\<nexists>pdf. fst (acquire_pdf w [] url) = Inr (Inr pdf)"
            using False nt Inr url True
            by (auto simp: reaches_tmp_file_def) (metis prod.collapse)
          then have "trace (ingest_manual w fs req) = snd (acquire_pdf w [] url)
                     \<and> files (ingest_manual w fs req) = fs"
            using nt Inr url True
            by (auto simp: ingest_manual_def ingest_try_def split: prod.splits sum.splits)
          with u show ?thesis by auto
        qed
      qed
    qed
  qed
  then show ?thesis by (rule disjI1)
qed

lemma count_gets_map_Get: "count_gets (map Get urls) = 0"
  by (induction urls) (simp_all add: count_gets_def)

lemma count_gets_run:
  "count_gets (map Get urls @ TmpWrite p pdf # Upload p # poll_events names @ [Unlink p]) =
     length names"
  using count_gets_poll_events [of names]
  by (simp add: count_gets_def)

lemma count_gets_ingest_manual: "count_gets (trace (ingest_manual w fs req)) \<le> 24"
proof -
  from ingest_manual_shape [of w fs req] show ?thesis
  proof (elim disjE exE conjE)
    fix urls
    assume "trace (ingest_manual w fs req) = map Get urls"
    then show ?thesis by (simp add: count_gets_map_Get)
  next
    fix urls pdf
    assume "trace (ingest_manual w fs req) = map Get urls @ [TmpWrite (tmp_name w) pdf]"
    then show ?thesis by (simp add: count_gets_append count_gets_map_Get count_gets_def)
  next
    fix urls pdf names
    assume "trace (ingest_manual w fs req) =
          map Get urls @ TmpWrite (tmp_name w) pdf # Upload (tmp_name w) # poll_events names
            @ [Unlink (tmp_name w)]" and "length names \<le> 24"
    then show ?thesis by (simp only: count_gets_run)
  qed
qed

lemma upload_and_poll_failed:
  assumes "files_upload w tr p = Inr f"
    and "poll w f 0 (tr @ [Upload p]) = (Inr g, tr')"
    and "uf_state g \<noteq> ''ACTIVE''"
  shows "upload_and_poll w tr p =
     (Inr (json_response 500 (ErrorBody (''File processing failed: '' @ uf_state g))), tr')"
  using assms by (simp add: upload_and_poll_def)

lemma upload_and_poll_done:
  assumes "files_upload w tr p = Inr f"
    and "poll w f 0 (tr @ [Upload p]) = (Inr g, tr')"
  shows "upload_and_poll w tr p =
     (Inr (if uf_state g = ''ACTIVE''
           then json_response 200 (IngestBody (uf_uri g) (uf_name g))
           else json_response 500 (ErrorBody (''File processing failed: '' @ uf_state g))),
      tr')"
  using assms by (simp add: upload_and_poll_def)

lemma poll_events_no_write: "TmpWrite p c \<notin> set (poll_events names)"
  by (induction names) (simp_all add: poll_events_def)


lemma pdf_world_reaches:
  assumes "environ w = environ pdf_world" and "requests_get w = requests_get pdf_world"
    and "find_iframe w = find_iframe pdf_world"
  shows "reaches_tmp_file w manual_request
           [Get (JStr ''https://library.abb.com/manual.pdf'')] ''%PDF-1.7''"
  using assms
  by (simp add: reaches_tmp_file_def manual_request_def pdf_world_def offline_world_def
      get_genai_client_def acquire_pdf_def fetch_def)

lemma pdf_world_reaches_upload:
  assumes "environ w = environ pdf_world" and "requests_get w = requests_get pdf_world"
    and "find_iframe w = find_iframe pdf_world"
    and "tmp_open w = None" and "tmp_write w = (\<lambda>pdf_content. None)"
  shows "reaches_upload w manual_request
           [Get (JStr ''https://library.abb.com/manual.pdf'')] ''%PDF-1.7''"
  using pdf_world_reaches [OF assms(1-3)] assms(4,5) by (simp add: reaches_upload_def)

section \<open>Query Normalizer: claims\<close>

text \<open>
  C3. For every input string, \<open>clean_category_path\<close> splits on the delimiter \<open>" > "\<close>, drops
  exactly the segments equal to one of the three stop-words and joins the rest with a single
  space, in their order. The split is the leftmost one, characterised by what it returns:
  joining the segments with the delimiter gives the input back, no segment contains the
  delimiter, no delimiter starts inside a segment that another one follows, and the
  split is the only list of segments with these properties. The two paths of the
  specification map to \<open>"HPR Rectifier MCR"\<close> and to the empty string.
\<close>

theorem clean_category_path_split_drop_join:
  "clean_category_path full_path =
     join '' ''
       (filter (\<lambda>seg. seg \<noteq> ''ABB Products'' \<and> seg \<noteq> ''All Categories'' \<and> seg \<noteq> ''Products'')
          (split full_path '' > ''))
   \<and> join '' > '' (split full_path '' > '') = full_path
   \<and> (\<forall>seg \<in> set (split full_path '' > ''). \<not> sublist '' > '' seg)
   \<and> (\<forall>seg \<in> set (butlast (split full_path '' > '')). \<not> sublist '' > '' (seg @ '' >''))
   \<and> (segs \<noteq> [] \<and> join '' > '' segs = full_path \<and> \<not> sublist '' > '' (last segs)
        \<and> (\<forall>seg \<in> set (butlast segs). \<not> sublist '' > '' (seg @ '' >''))
      \<longrightarrow> split full_path '' > '' = segs)
   \<and> clean_category_path ''ABB Products > HPR > Rectifier > MCR'' = ''HPR Rectifier MCR''
   \<and> clean_category_path ''ABB Products > Products'' = []"
proof (intro conjI)
  show "clean_category_path full_path =
     join '' ''
       (filter (\<lambda>seg. seg \<noteq> ''ABB Products'' \<and> seg \<noteq> ''All Categories'' \<and> seg \<noteq> ''Products'')
          (split full_path '' > ''))"
    by (simp add: clean_category_path_def filtered_parts_def generic_roots_def)
  show "join '' > '' (split full_path '' > '') = full_path"
    by (rule join_split) simp
  show "\<forall>seg \<in> set (split full_path '' > ''). \<not> sublist '' > '' seg"
    using split_segments [of "'' > ''" _ full_path] by blast
  show "\<forall>seg \<in> set (butlast (split full_path '' > '')). \<not> sublist '' > '' (seg @ '' >'')"
    using split_leftmost [of "'' > ''" _ full_path] by simp
  show "segs \<noteq> [] \<and> join '' > '' segs = full_path \<and> \<not> sublist '' > '' (last segs)
        \<and> (\<forall>seg \<in> set (butlast segs). \<not> sublist '' > '' (seg @ '' >''))
      \<longrightarrow> split full_path '' > '' = segs"
    using split_unique [of "'' > ''" segs] by auto
  show "clean_category_path ''ABB Products > HPR > Rectifier > MCR'' = ''HPR Rectifier MCR''"
    by code_simp
  show "clean_category_path ''ABB Products > Products'' = []"
    by code_simp
qed

theorem clean_category_path_split_drop_join_witness:
  "clean_category_path ''All Categories > Drives > ACS880'' = ''Drives ACS880''
   \<and> split ''All Categories > Drives > ACS880'' '' > '' = [''All Categories'', ''Drives'', ''ACS880'']
   \<and> \<not> sublist '' > '' ''Drives''"
proof -
  have s: "split ''All Categories > Drives > ACS880'' '' > '' = [''All Categories'', ''Drives'', ''ACS880'']"
    by code_simp
  show ?thesis
    using clean_category_path_split_drop_join [of "''All Categories > Drives > ACS880''"]
    unfolding s by simp
qed




section \<open>Catalog Matcher: claims\<close>

text \<open>
  C1. For every query string, the loops of \<open>search_products\<close> over the lower-cased query
  return the entries of the keyword groups whose keyword is a substring of it, in table
  order, without an entry whose title was added before, and the list is cut to its first 10
  entries only after the whole table has been visited. The titles returned are distinct
  and at most 10. A request that carries a non-empty string \<open>full_path\<close> is answered with
  exactly this list for the normalised path.
\<close>

theorem search_products_catalog_match:
  "take 10 (fst (match_keywords product_database (lower query) ([], {}))) =
     take 10 (first_by_title (matching_entries (lower query)))
   \<and> distinct (map title (take 10 (first_by_title (matching_entries (lower query)))))
   \<and> length (take 10 (first_by_title (matching_entries (lower query)))) \<le> 10
   \<and> (req_method req \<noteq> ''OPTIONS'' \<and> get_json req = Inr (JObj kvs)
        \<and> map_of kvs ''full_path'' = Some (JStr full_path) \<and> full_path \<noteq> []
      \<longrightarrow> search_products req =
            json_response 200
              (SearchBody
                 (take 10 (first_by_title
                    (matching_entries (lower (clean_category_path full_path)))))
                 (clean_category_path full_path)
                 (search_url_of (clean_category_path full_path))))"
proof (intro conjI impI)
  show "take 10 (fst (match_keywords product_database (lower query) ([], {}))) =
     take 10 (first_by_title (matching_entries (lower query)))"
    by (simp only: loop_is_first_by_title)
  show "distinct (map title (take 10 (first_by_title (matching_entries (lower query)))))"
    using distinct_first_by_title [of "matching_entries (lower query)"]
    by (simp add: take_map [symmetric] distinct_take)
  show "length (take 10 (first_by_title (matching_entries (lower query)))) \<le> 10"
    by simp
next
  assume a: "req_method req \<noteq> ''OPTIONS'' \<and> get_json req = Inr (JObj kvs)
        \<and> map_of kvs ''full_path'' = Some (JStr full_path) \<and> full_path \<noteq> []"
  then show "search_products req =
            json_response 200
              (SearchBody
                 (take 10 (first_by_title
                    (matching_entries (lower (clean_category_path full_path)))))
                 (clean_category_path full_path)
                 (search_url_of (clean_category_path full_path)))"
    using search_try_str [of req kvs full_path] by (simp add: search_products_def)
qed

lemma hpr_rectifier_entries:
  "take 10 (first_by_title (matching_entries (lower ''HPR Rectifier''))) =
     snd (product_database ! 0) @ snd (product_database ! 1)"
  by code_simp

lemma hpr_rectifier_query: "clean_category_path ''ABB Products > HPR > Rectifier'' = ''HPR Rectifier''"
  by code_simp

lemma hpr_rectifier_url:
  "search_url_of ''HPR Rectifier'' = ''https://library.abb.com/r?cid=pscat&lang=en&q=HPR%20Rectifier''"
  by code_simp

theorem search_products_catalog_match_witness:
  "search_products
     \<lparr>req_method = ''POST'',
      get_json = Inr (JObj [(''full_path'', JStr ''ABB Products > HPR > Rectifier'')])\<rparr> =
   json_response 200
     (SearchBody (snd (product_database ! 0) @ snd (product_database ! 1))
        ''HPR Rectifier''
        ''https://library.abb.com/r?cid=pscat&lang=en&q=HPR%20Rectifier'')
   \<and> length (snd (product_database ! 0) @ snd (product_database ! 1)) = 9
   \<and> length (fst (match_keywords product_database
        (lower ''HPR Rectifier MCR Drive Robot Motor'') ([], {}))) = 16
   \<and> take 10 (fst (match_keywords product_database
        (lower ''HPR Rectifier MCR Drive Robot Motor'') ([], {}))) =
       snd (product_database ! 0) @ snd (product_database ! 1) @ [hd (snd (product_database ! 3))]"
proof (intro conjI)
  let ?kvs = "[(''full_path'', JStr ''ABB Products > HPR > Rectifier'')]"
  let ?req = "\<lparr>req_method = ''POST'', get_json = Inr (JObj ?kvs)\<rparr>"
  have reached: "req_method ?req \<noteq> ''OPTIONS'' \<and> get_json ?req = Inr (JObj ?kvs)
      \<and> map_of ?kvs ''full_path'' = Some (JStr ''ABB Products > HPR > Rectifier'')
      \<and> ''ABB Products > HPR > Rectifier'' \<noteq> []"
    by simp
  have "search_products ?req =
      json_response 200
        (SearchBody
           (take 10 (first_by_title (matching_entries
              (lower (clean_category_path ''ABB Products > HPR > Rectifier'')))))
           (clean_category_path ''ABB Products > HPR > Rectifier'')
           (search_url_of (clean_category_path ''ABB Products > HPR > Rectifier'')))"
    using search_products_catalog_match
      [of "''HPR Rectifier''" ?req ?kvs "''ABB Products > HPR > Rectifier''"] reached
    by blast
  then show "search_products ?req =
      json_response 200
        (SearchBody (snd (product_database ! 0) @ snd (product_database ! 1))
           ''HPR Rectifier''
           ''https://library.abb.com/r?cid=pscat&lang=en&q=HPR%20Rectifier'')"
    by (simp only: hpr_rectifier_query hpr_rectifier_entries hpr_rectifier_url)
  show "length (snd (product_database ! 0) @ snd (product_database ! 1)) = 9"
    by code_simp
  show "length (fst (match_keywords product_database
        (lower ''HPR Rectifier MCR Drive Robot Motor'') ([], {}))) = 16"
    by code_simp
  show "take 10 (fst (match_keywords product_database
        (lower ''HPR Rectifier MCR Drive Robot Motor'') ([], {}))) =
       snd (product_database ! 0) @ snd (product_database ! 1) @ [hd (snd (product_database ! 3))]"
    by code_simp
qed


text \<open>
  C7. A request whose normalised query, lower-cased, contains none of the catalog keywords
  is answered with status 200, an empty entry list, the normalised query and the search
  URL: the fixed endpoint followed by the normalised query (not lower-cased) with every
  space replaced by \<open>%20\<close>.
\<close>

theorem search_products_no_match:
  assumes "req_method req \<noteq> ''OPTIONS''"
    and "get_json req = Inr (JObj kvs)"
    and "map_of kvs ''full_path'' = Some (JStr full_path)"
    and "full_path \<noteq> []"
    and "\<forall>kv \<in> set product_database. \<not> sublist (fst kv) (lower (clean_category_path full_path))"
  shows "search_products req =
           \<lparr>status = 200, content_type = Some ''application/json'',
            body = SearchBody [] (clean_category_path full_path)
              (''https://library.abb.com/r?cid=pscat&lang=en&q=''
                 @ concat (map (\<lambda>c. if c = CHR '' '' then ''%20'' else [c])
                     (clean_category_path full_path)))\<rparr>"
proof -
  have "filter (\<lambda>kv. sublist (fst kv) (lower (clean_category_path full_path))) product_database = []"
    using assms(5) by (simp add: filter_empty_conv)
  then have "matching_entries (lower (clean_category_path full_path)) = []"
    by (simp add: matching_entries_def)
  then show ?thesis
    using search_try_str [OF assms(2,3,4)] assms(1)
    by (simp add: search_products_def json_response_def search_url_of_def ABB_LIBRARY_URL_def
        replace_space)
qed

lemma switches_query:
  "clean_category_path ''ABB Products > Low Voltage > Switches'' = ''Low Voltage Switches''"
  by code_simp

lemma switches_no_keyword:
  "\<forall>kv \<in> set product_database. \<not> sublist (fst kv) (lower ''Low Voltage Switches'')"
  unfolding is_in_sublist [symmetric] by code_simp

theorem search_products_no_match_witness:
  "search_products
     \<lparr>req_method = ''POST'',
      get_json = Inr (JObj [(''full_path'', JStr ''ABB Products > Low Voltage > Switches'')])\<rparr> =
   \<lparr>status = 200, content_type = Some ''application/json'',
    body = SearchBody [] ''Low Voltage Switches''
      ''https://library.abb.com/r?cid=pscat&lang=en&q=Low%20Voltage%20Switches''\<rparr>"
proof -
  let ?kvs = "[(''full_path'', JStr ''ABB Products > Low Voltage > Switches'')]"
  let ?req = "\<lparr>req_method = ''POST'', get_json = Inr (JObj ?kvs)\<rparr>"
  have "search_products ?req =
           \<lparr>status = 200, content_type = Some ''application/json'',
            body = SearchBody [] (clean_category_path ''ABB Products > Low Voltage > Switches'')
              (''https://library.abb.com/r?cid=pscat&lang=en&q=''
                 @ concat (map (\<lambda>c. if c = CHR '' '' then ''%20'' else [c])
                     (clean_category_path ''ABB Products > Low Voltage > Switches'')))\<rparr>"
    by (rule search_products_no_match [of ?req ?kvs])
       (simp_all add: switches_query switches_no_keyword)
  then show ?thesis by (simp add: switches_query)
qed

section \<open>Request validation: claims\<close>

text \<open>
  C5, as stated, fails: \<open>ingest_manual\<close> checks the API key before it reads the body, so a
  request without \<open>download_url\<close> that arrives while the key is not set is answered with
  500, not 400.
\<close>

theorem ingest_missing_field_without_key:
  "ingest_manual offline_world {} \<lparr>req_method = ''POST'', get_json = Inr (JObj [])\<rparr> =
     \<lparr>response = \<lparr>status = 500, content_type = Some ''application/json'',
                   body = ErrorBody ''Gemini API key not configured''\<rparr>,
      trace = [], files = {}\<rparr>
   \<and> field_missing [] ''download_url''"
  by (simp add: ingest_manual_def offline_world_def get_genai_client_def key_missing_response_def
      json_response_def field_missing_def)

text \<open>
  C5, amended. For every request other than \<open>OPTIONS\<close> whose body parses to a JSON object
  in which the required field is missing or falsy, \<open>search_products\<close> answers 400 with
  \<open>Missing full_path parameter\<close>, and, when the API key is set, \<open>ingest_manual\<close> and
  \<open>chat_agent\<close> answer 400 with \<open>Missing download_url parameter\<close> and
  \<open>Missing user_message parameter\<close>, before any external call.
\<close>

theorem missing_field_bad_request:
  assumes "req_method req \<noteq> ''OPTIONS''"
    and "get_json req = Inr (JObj kvs)"
    and "environ w ''GEMINI_API_KEY'' = Some key"
    and "key \<noteq> []"
  shows "(field_missing kvs ''full_path'' \<longrightarrow>
            search_products req =
              \<lparr>status = 400, content_type = Some ''application/json'',
               body = ErrorBody ''Missing full_path parameter''\<rparr>)
       \<and> (field_missing kvs ''download_url'' \<longrightarrow>
            ingest_manual w fs req =
              \<lparr>response = \<lparr>status = 400, content_type = Some ''application/json'',
                            body = ErrorBody ''Missing download_url parameter''\<rparr>,
               trace = [], files = fs\<rparr>)
       \<and> (field_missing kvs ''user_message'' \<longrightarrow>
            chat_agent w req =
              (\<lparr>status = 400, content_type = Some ''application/json'',
                body = ErrorBody ''Missing user_message parameter''\<rparr>, []))"
proof (intro conjI impI)
  assume "field_missing kvs ''full_path''"
  then show "search_products req =
              \<lparr>status = 400, content_type = Some ''application/json'',
               body = ErrorBody ''Missing full_path parameter''\<rparr>"
    using assms(1,2)
    by (auto simp: field_missing_def search_products_def search_try_def json_response_def
        split: option.splits)
next
  assume "field_missing kvs ''download_url''"
  then show "ingest_manual w fs req =
              \<lparr>response = \<lparr>status = 400, content_type = Some ''application/json'',
                            body = ErrorBody ''Missing download_url parameter''\<rparr>,
               trace = [], files = fs\<rparr>"
    using assms(1,2) client_configured [OF assms(3,4)]
    by (auto simp: field_missing_def ingest_manual_def ingest_try_def json_response_def
        split: option.splits)
next
  assume "field_missing kvs ''user_message''"
  then show "chat_agent w req =
              (\<lparr>status = 400, content_type = Some ''application/json'',
                body = ErrorBody ''Missing user_message parameter''\<rparr>, [])"
    using assms(1,2) client_configured [OF assms(3,4)]
    by (auto simp: field_missing_def chat_agent_def chat_try_def json_response_def
        split: option.splits)
qed

theorem missing_field_bad_request_witness:
  "search_products \<lparr>req_method = ''POST'', get_json = Inr (JObj [(''full_path'', JStr [])])\<rparr> =
     \<lparr>status = 400, content_type = Some ''application/json'',
      body = ErrorBody ''Missing full_path parameter''\<rparr>
   \<and> ingest_manual (offline_world\<lparr>environ := [''GEMINI_API_KEY'' \<mapsto> ''secret'']\<rparr>) {}
        \<lparr>req_method = ''POST'', get_json = Inr (JObj [(''full_path'', JStr [])])\<rparr> =
     \<lparr>response = \<lparr>status = 400, content_type = Some ''application/json'',
                   body = ErrorBody ''Missing download_url parameter''\<rparr>,
      trace = [], files = {}\<rparr>
   \<and> chat_agent (offline_world\<lparr>environ := [''GEMINI_API_KEY'' \<mapsto> ''secret'']\<rparr>)
        \<lparr>req_method = ''POST'', get_json = Inr (JObj [(''full_path'', JStr [])])\<rparr> =
     (\<lparr>status = 400, content_type = Some ''application/json'',
       body = ErrorBody ''Missing user_message parameter''\<rparr>, [])"
  using missing_field_bad_request
    [of "\<lparr>req_method = ''POST'', get_json = Inr (JObj [(''full_path'', JStr [])])\<rparr>"
        "[(''full_path'', JStr [])]"
        "offline_world\<lparr>environ := [''GEMINI_API_KEY'' \<mapsto> ''secret'']\<rparr>"
        "''secret''" "{}"]
  by (simp add: field_missing_def)





section \<open>Manual Ingestor: claims\<close>

text \<open>
  C8. When the first fetch succeeds and declares a content type containing \<open>text/html\<close>,
  and the parsed page has no frame \<open>mainFrame\<close>, or the frame has no \<open>src\<close> or an empty one,
  \<open>ingest_manual\<close> answers 500 with \<open>Could not find PDF URL in ABB library page\<close>. The
  trace of the run is the first fetch alone: no second fetch, no temporary file and no
  upload.
\<close>

theorem ingest_manual_no_viewer_frame:
  assumes "req_method req \<noteq> ''OPTIONS''"
    and "environ w ''GEMINI_API_KEY'' = Some key" and "key \<noteq> []"
    and "get_json req = Inr (JObj kvs)"
    and "map_of kvs ''download_url'' = Some url" and "truthy url"
    and "requests_get w [] url = Inr page"
    and "\<not> (400 \<le> status_code page \<and> status_code page < 600)"
    and "content_type_header page = Some ctype" and "sublist ''text/html'' ctype"
    and "find_iframe w (page_text page) = Inr frame"
    and "frame = None \<or> frame = Some None \<or> frame = Some (Some [])"
  shows "ingest_manual w fs req =
           \<lparr>response = \<lparr>status = 500, content_type = Some ''application/json'',
                         body = ErrorBody ''Could not find PDF URL in ABB library page''\<rparr>,
            trace = [Get url], files = fs\<rparr>"
proof -
  have "fetch w [] url = (Inr page, [Get url])"
    using assms(7,8) by (simp add: fetch_def)
  moreover have "iframe_src frame = None"
    using assms(12) by auto
  ultimately have "acquire_pdf w [] url =
      (Inr (Inl (json_response 500 (ErrorBody ''Could not find PDF URL in ABB library page''))),
       [Get url])"
    using assms(9,10,11) by (simp add: acquire_pdf_def is_in_sublist)
  then show ?thesis
    using assms(1,4,5,6) client_configured [OF assms(2,3)]
    by (simp add: ingest_manual_def ingest_try_def json_response_def)
qed

theorem ingest_manual_no_viewer_frame_witness:
  "ingest_manual
     (offline_world
        \<lparr>environ := [''GEMINI_API_KEY'' \<mapsto> ''secret''],
         requests_get := (\<lambda>tr url. Inr \<lparr>status_code = 200,
            content_type_header = Some ''text/html; charset=utf-8'',
            page_text = ''<html><body>No document</body></html>'', page_content = []\<rparr>)\<rparr>)
     {}
     \<lparr>req_method = ''POST'',
      get_json = Inr (JObj [(''download_url'', JStr ''https://search.abb.com/library/Download.aspx?DocumentID=1'')])\<rparr> =
   \<lparr>response = \<lparr>status = 500, content_type = Some ''application/json'',
                 body = ErrorBody ''Could not find PDF URL in ABB library page''\<rparr>,
    trace = [Get (JStr ''https://search.abb.com/library/Download.aspx?DocumentID=1'')],
    files = {}\<rparr>"
proof -
  let ?url = "JStr ''https://search.abb.com/library/Download.aspx?DocumentID=1''"
  let ?kvs = "[(''download_url'', ?url)]"
  let ?req = "\<lparr>req_method = ''POST'', get_json = Inr (JObj ?kvs)\<rparr>"
  let ?page = "\<lparr>status_code = 200,
            content_type_header = Some ''text/html; charset=utf-8'',
            page_text = ''<html><body>No document</body></html>'', page_content = []\<rparr>"
  let ?w = "offline_world
        \<lparr>environ := [''GEMINI_API_KEY'' \<mapsto> ''secret''],
         requests_get := (\<lambda>tr url. Inr ?page)\<rparr>"
  have html: "sublist ''text/html'' ''text/html; charset=utf-8''"
    unfolding is_in_sublist [symmetric] by code_simp
  have h1: "req_method ?req \<noteq> ''OPTIONS''" by simp
  have h2: "environ ?w ''GEMINI_API_KEY'' = Some ''secret''" by simp
  have h3: "''secret'' \<noteq> []" by simp
  have h4: "get_json ?req = Inr (JObj ?kvs)" by simp
  have h5: "map_of ?kvs ''download_url'' = Some ?url" by simp
  have h6: "truthy ?url" by simp
  have h7: "requests_get ?w [] ?url = Inr ?page" by simp
  have h8: "\<not> (400 \<le> status_code ?page \<and> status_code ?page < 600)" by simp
  have h9: "content_type_header ?page = Some ''text/html; charset=utf-8''" by simp
  have h11: "find_iframe ?w (page_text ?page) = Inr None" by (simp add: offline_world_def)
  have h12: "(None :: string option option) = None \<or> None = Some None \<or> None = Some (Some [])"
    by simp
  show ?thesis
    using ingest_manual_no_viewer_frame [OF h1 h2 h3 h4 h5 h6 h7 h8 h9 html h11 h12, of "{}"]
    by simp
qed

text \<open>
  C4. The \<open>finally\<close> block that unlinks the temporary file guards the inner \<open>try\<close> only, and
  the file is written before that \<open>try\<close> is entered. So a run of \<open>ingest_manual\<close> that
  obtains the PDF bytes and creates the temporary file ends in one of two ways. When the
  write succeeds, the run ends with the unlinking of the file and the file is absent when
  the call returns, after a successful upload, after a failed upload or poll, and after an
  exception raised by the upload or by a status fetch, and the other files are as they
  were. When the write raises, the run answers 500 with that exception, its last event is
  the write, nothing is unlinked, and the file is still there when the call returns.
  Every run whose trace holds a write of the temporary file is of one of these two kinds.
\<close>

theorem tmp_file_left_by_failed_write:
  "(reaches_tmp_file w req tr pdf \<and> tmp_open w = None \<and> tmp_write w pdf = Some e \<longrightarrow>
      ingest_manual w fs req =
        \<lparr>response = \<lparr>status = 500, content_type = Some ''application/json'',
                     body = ExnBody e\<rparr>,
         trace = tr @ [TmpWrite (tmp_name w) pdf],
         files = insert (tmp_name w) fs\<rparr>)
   \<and> (reaches_tmp_file w req tr pdf \<and> tmp_open w = None \<and> tmp_write w pdf = None \<longrightarrow>
      TmpWrite (tmp_name w) pdf \<in> set (trace (ingest_manual w fs req))
      \<and> last (trace (ingest_manual w fs req)) = Unlink (tmp_name w)
      \<and> files (ingest_manual w fs req) = fs - {tmp_name w})
   \<and> (TmpWrite p pdf \<in> set (trace (ingest_manual w fs req)) \<longrightarrow>
      (tmp_write w pdf = None
         \<and> p \<notin> files (ingest_manual w fs req)
         \<and> last (trace (ingest_manual w fs req)) = Unlink p)
      \<or> (tmp_write w pdf \<noteq> None
         \<and> p \<in> files (ingest_manual w fs req)
         \<and> last (trace (ingest_manual w fs req)) = TmpWrite p pdf))"
proof -
  have left: "reaches_tmp_file w req tr pdf \<and> tmp_open w = None \<and> tmp_write w pdf = Some e \<longrightarrow>
      ingest_manual w fs req =
        \<lparr>response = \<lparr>status = 500, content_type = Some ''application/json'',
                     body = ExnBody e\<rparr>,
         trace = tr @ [TmpWrite (tmp_name w) pdf],
         files = insert (tmp_name w) fs\<rparr>"
  proof (rule impI)
    assume "reaches_tmp_file w req tr pdf \<and> tmp_open w = None \<and> tmp_write w pdf = Some e"
    then have r: "reaches_tmp_file w req tr pdf" and o: "tmp_open w = None"
      and wr: "tmp_write w pdf = Some e"
      by simp_all
    show "ingest_manual w fs req =
        \<lparr>response = \<lparr>status = 500, content_type = Some ''application/json'',
                     body = ExnBody e\<rparr>,
         trace = tr @ [TmpWrite (tmp_name w) pdf],
         files = insert (tmp_name w) fs\<rparr>"
      by (simp add: ingest_manual_write_failed [OF r o wr] json_response_def)
  qed
  have removed: "reaches_tmp_file w req tr pdf \<and> tmp_open w = None \<and> tmp_write w pdf = None \<longrightarrow>
      TmpWrite (tmp_name w) pdf \<in> set (trace (ingest_manual w fs req))
      \<and> last (trace (ingest_manual w fs req)) = Unlink (tmp_name w)
      \<and> files (ingest_manual w fs req) = fs - {tmp_name w}"
  proof (rule impI)
    assume "reaches_tmp_file w req tr pdf \<and> tmp_open w = None \<and> tmp_write w pdf = None"
    then have r: "reaches_upload w req tr pdf"
      by (simp add: reaches_upload_def)
    obtain names where
      n: "snd (upload_and_poll w (tr @ [TmpWrite (tmp_name w) pdf]) (tmp_name w)) =
            (tr @ [TmpWrite (tmp_name w) pdf]) @ Upload (tmp_name w) # poll_events names"
      using upload_and_poll_trace by blast
    show "TmpWrite (tmp_name w) pdf \<in> set (trace (ingest_manual w fs req))
        \<and> last (trace (ingest_manual w fs req)) = Unlink (tmp_name w)
        \<and> files (ingest_manual w fs req) = fs - {tmp_name w}"
      by (simp add: ingest_manual_reached [OF r] n)
  qed
  have kinds: "TmpWrite p pdf \<in> set (trace (ingest_manual w fs req)) \<longrightarrow>
      (tmp_write w pdf = None
         \<and> p \<notin> files (ingest_manual w fs req)
         \<and> last (trace (ingest_manual w fs req)) = Unlink p)
      \<or> (tmp_write w pdf \<noteq> None
         \<and> p \<in> files (ingest_manual w fs req)
         \<and> last (trace (ingest_manual w fs req)) = TmpWrite p pdf)"
  proof (rule impI)
    assume wr: "TmpWrite p pdf \<in> set (trace (ingest_manual w fs req))"
    from ingest_manual_shape [of w fs req]
    show "(tmp_write w pdf = None
           \<and> p \<notin> files (ingest_manual w fs req)
           \<and> last (trace (ingest_manual w fs req)) = Unlink p)
        \<or> (tmp_write w pdf \<noteq> None
           \<and> p \<in> files (ingest_manual w fs req)
           \<and> last (trace (ingest_manual w fs req)) = TmpWrite p pdf)"
    proof (elim disjE)
      assume "\<exists>urls. trace (ingest_manual w fs req) = map Get urls
                 \<and> files (ingest_manual w fs req) = fs"
      with wr show ?thesis by auto
    next
      assume "\<exists>urls pdf e.
          trace (ingest_manual w fs req) = map Get urls @ [TmpWrite (tmp_name w) pdf]
          \<and> tmp_write w pdf = Some e
          \<and> files (ingest_manual w fs req) = insert (tmp_name w) fs"
      then obtain urls c e where
        t: "trace (ingest_manual w fs req) = map Get urls @ [TmpWrite (tmp_name w) c]"
        and e: "tmp_write w c = Some e"
        and f: "files (ingest_manual w fs req) = insert (tmp_name w) fs" by blast
      from wr have "p = tmp_name w \<and> pdf = c"
        unfolding t by auto
      then show ?thesis using t e f by simp
    next
      assume "\<exists>urls pdf names.
          trace (ingest_manual w fs req) =
            map Get urls @ TmpWrite (tmp_name w) pdf # Upload (tmp_name w) # poll_events names
              @ [Unlink (tmp_name w)]
          \<and> length names \<le> 24
          \<and> tmp_write w pdf = None
          \<and> files (ingest_manual w fs req) = fs - {tmp_name w}"
      then obtain urls c names where
        t: "trace (ingest_manual w fs req) =
            map Get urls @ TmpWrite (tmp_name w) c # Upload (tmp_name w) # poll_events names
              @ [Unlink (tmp_name w)]"
        and e: "tmp_write w c = None"
        and f: "files (ingest_manual w fs req) = fs - {tmp_name w}" by blast
      from wr have "p = tmp_name w \<and> pdf = c"
        unfolding t using poll_events_no_write [of p pdf names] by auto
      then show ?thesis using t e f by simp
    qed
  qed
  show ?thesis by (rule conjI [OF left conjI [OF removed kinds]])
qed

theorem tmp_file_left_by_failed_write_witness:
  "ingest_manual
      (pdf_world\<lparr>tmp_write :=
         (\<lambda>pdf_content. Some (Raised ''[Errno 28] No space left on device''))\<rparr>)
      {''/var/log/app.log''} manual_request =
     \<lparr>response = \<lparr>status = 500, content_type = Some ''application/json'',
                  body = ExnBody (Raised ''[Errno 28] No space left on device'')\<rparr>,
      trace = [Get (JStr ''https://library.abb.com/manual.pdf''),
               TmpWrite ''/tmp/tmpk3v9.pdf'' ''%PDF-1.7''],
      files = {''/tmp/tmpk3v9.pdf'', ''/var/log/app.log''}\<rparr>
   \<and> files (ingest_manual
      (pdf_world\<lparr>files_upload := (\<lambda>tr path. Inr (processing_file\<lparr>uf_state := ''ACTIVE''\<rparr>))\<rparr>)
      {''/var/log/app.log''} manual_request) = {''/var/log/app.log''}
   \<and> last (trace (ingest_manual
      (pdf_world\<lparr>files_upload := (\<lambda>tr path. Inr (processing_file\<lparr>uf_state := ''ACTIVE''\<rparr>))\<rparr>)
      {''/var/log/app.log''} manual_request)) = Unlink ''/tmp/tmpk3v9.pdf''
   \<and> files (ingest_manual pdf_world {''/var/log/app.log''} manual_request) =
       {''/var/log/app.log''}
   \<and> last (trace (ingest_manual pdf_world {''/var/log/app.log''} manual_request)) =
       Unlink ''/tmp/tmpk3v9.pdf''
   \<and> files (ingest_manual (pdf_world\<lparr>files_upload := (\<lambda>tr path. Inr processing_file)\<rparr>)
        {''/var/log/app.log''} manual_request) = {''/var/log/app.log''}
   \<and> last (trace (ingest_manual (pdf_world\<lparr>files_upload := (\<lambda>tr path. Inr processing_file)\<rparr>)
        {''/var/log/app.log''} manual_request)) = Unlink ''/tmp/tmpk3v9.pdf''"
proof -
  let ?fs = "{''/var/log/app.log''}"
  let ?tr = "[Get (JStr ''https://library.abb.com/manual.pdf'')]"
  let ?e = "Raised ''[Errno 28] No space left on device''"
  let ?full = "pdf_world\<lparr>tmp_write := (\<lambda>pdf_content. Some ?e)\<rparr>"
  let ?ok = "pdf_world\<lparr>files_upload := (\<lambda>tr path. Inr (processing_file\<lparr>uf_state := ''ACTIVE''\<rparr>))\<rparr>"
  let ?busy = "pdf_world\<lparr>files_upload := (\<lambda>tr path. Inr processing_file)\<rparr>"
  have tmp: "tmp_name ?full = ''/tmp/tmpk3v9.pdf''" "tmp_name ?ok = ''/tmp/tmpk3v9.pdf''"
    "tmp_name pdf_world = ''/tmp/tmpk3v9.pdf''" "tmp_name ?busy = ''/tmp/tmpk3v9.pdf''"
    by (simp_all add: pdf_world_def offline_world_def)
  have opn: "tmp_open ?full = None" "tmp_open ?ok = None" "tmp_open pdf_world = None"
    "tmp_open ?busy = None"
    by (simp_all add: pdf_world_def offline_world_def)
  have wrt: "tmp_write ?full ''%PDF-1.7'' = Some ?e" "tmp_write ?ok ''%PDF-1.7'' = None"
    "tmp_write pdf_world ''%PDF-1.7'' = None" "tmp_write ?busy ''%PDF-1.7'' = None"
    by (simp_all add: pdf_world_def offline_world_def)
  have r_full: "reaches_tmp_file ?full manual_request ?tr ''%PDF-1.7''"
    by (rule pdf_world_reaches) simp_all
  have r_ok: "reaches_tmp_file ?ok manual_request ?tr ''%PDF-1.7''"
    by (rule pdf_world_reaches) simp_all
  have r_off: "reaches_tmp_file pdf_world manual_request ?tr ''%PDF-1.7''"
    by (rule pdf_world_reaches) simp_all
  have r_busy: "reaches_tmp_file ?busy manual_request ?tr ''%PDF-1.7''"
    by (rule pdf_world_reaches) simp_all
  note left =
    tmp_file_left_by_failed_write [where w = ?full and req = manual_request and tr = ?tr
      and pdf = "''%PDF-1.7''" and e = ?e and fs = ?fs, THEN conjunct1]
  have "ingest_manual ?full ?fs manual_request =
        \<lparr>response = \<lparr>status = 500, content_type = Some ''application/json'',
                     body = ExnBody ?e\<rparr>,
         trace = ?tr @ [TmpWrite (tmp_name ?full) ''%PDF-1.7''],
         files = insert (tmp_name ?full) ?fs\<rparr>"
    by (rule mp [OF left]) (intro conjI r_full opn(1) wrt(1))
  then have full: "ingest_manual ?full ?fs manual_request =
     \<lparr>response = \<lparr>status = 500, content_type = Some ''application/json'',
                  body = ExnBody ?e\<rparr>,
      trace = [Get (JStr ''https://library.abb.com/manual.pdf''),
               TmpWrite ''/tmp/tmpk3v9.pdf'' ''%PDF-1.7''],
      files = {''/tmp/tmpk3v9.pdf'', ''/var/log/app.log''}\<rparr>"
    by (simp only: tmp) simp
  note removed_ok =
    tmp_file_left_by_failed_write [where w = ?ok and req = manual_request and tr = ?tr
      and pdf = "''%PDF-1.7''" and fs = ?fs, THEN conjunct2, THEN conjunct1]
  have "TmpWrite (tmp_name ?ok) ''%PDF-1.7'' \<in> set (trace (ingest_manual ?ok ?fs manual_request))
      \<and> last (trace (ingest_manual ?ok ?fs manual_request)) = Unlink (tmp_name ?ok)
      \<and> files (ingest_manual ?ok ?fs manual_request) = ?fs - {tmp_name ?ok}"
    by (rule mp [OF removed_ok]) (intro conjI r_ok opn(2) wrt(2))
  then have ok: "files (ingest_manual ?ok ?fs manual_request) = ?fs"
    "last (trace (ingest_manual ?ok ?fs manual_request)) = Unlink ''/tmp/tmpk3v9.pdf''"
    by (simp_all only: tmp) simp_all
  note removed_off =
    tmp_file_left_by_failed_write [where w = pdf_world and req = manual_request and tr = ?tr
      and pdf = "''%PDF-1.7''" and fs = ?fs, THEN conjunct2, THEN conjunct1]
  have "TmpWrite (tmp_name pdf_world) ''%PDF-1.7''
          \<in> set (trace (ingest_manual pdf_world ?fs manual_request))
      \<and> last (trace (ingest_manual pdf_world ?fs manual_request)) = Unlink (tmp_name pdf_world)
      \<and> files (ingest_manual pdf_world ?fs manual_request) = ?fs - {tmp_name pdf_world}"
    by (rule mp [OF removed_off]) (intro conjI r_off opn(3) wrt(3))
  then have off: "files (ingest_manual pdf_world ?fs manual_request) = ?fs"
    "last (trace (ingest_manual pdf_world ?fs manual_request)) = Unlink ''/tmp/tmpk3v9.pdf''"
    by (simp_all only: tmp) simp_all
  note removed_busy =
    tmp_file_left_by_failed_write [where w = ?busy and req = manual_request and tr = ?tr
      and pdf = "''%PDF-1.7''" and fs = ?fs, THEN conjunct2, THEN conjunct1]
  have "TmpWrite (tmp_name ?busy) ''%PDF-1.7''
          \<in> set (trace (ingest_manual ?busy ?fs manual_request))
      \<and> last (trace (ingest_manual ?busy ?fs manual_request)) = Unlink (tmp_name ?busy)
      \<and> files (ingest_manual ?busy ?fs manual_request) = ?fs - {tmp_name ?busy}"
    by (rule mp [OF removed_busy]) (intro conjI r_busy opn(4) wrt(4))
  then have busy: "files (ingest_manual ?busy ?fs manual_request) = ?fs"
    "last (trace (ingest_manual ?busy ?fs manual_request)) = Unlink ''/tmp/tmpk3v9.pdf''"
    by (simp_all only: tmp) simp_all
  from full ok off busy show ?thesis by (intro conjI)
qed

text \<open>
  C2. The poll loop runs only while the state is \<open>PROCESSING\<close> and \<open>elapsed\<close> is below the
  ceiling of 120; each iteration sleeps 5 and fetches the state again. So the events
  it adds are pairs of a sleep of 5 and a status fetch, at most 120 / 5 = 24 of them, and
  no run of \<open>ingest_manual\<close> fetches the status more than 24 times. A handle that is not
  \<open>PROCESSING\<close> is not polled at all. The loop follows the answers of the file store:
  when the successive fetches answer the handles \<open>gs\<close>, all but the last of \<open>f # gs\<close> are
  \<open>PROCESSING\<close>, and the last one is not \<open>PROCESSING\<close> or is the 24th answer, the loop
  makes exactly \<open>length gs\<close> fetches, each with the name of the handle fetched before, and
  returns the handle fetched last; a fetch that raises ends the loop with that exception.
  The handler then answers from the handle fetched last: 200 with its URI and name when
  its state is \<open>ACTIVE\<close>, and otherwise 500 with \<open>File processing failed:\<close> and its state.
  When the loop exits with a state other than \<open>ACTIVE\<close>, the handler answers 500 with
  \<open>File processing failed:\<close> and the state observed; when every check reports
  \<open>PROCESSING\<close>, there are exactly 24 status fetches and the answer is that failure with
  the state \<open>PROCESSING\<close>.
\<close>

theorem poll_loop_bounded:
  "count_gets (trace (ingest_manual w fs req)) \<le> max_wait div wait_interval
   \<and> max_wait div wait_interval = 24
   \<and> (\<exists>names. snd (poll w f 0 tr0) = tr0 @ concat (map (\<lambda>n. [Sleep 5, FilesGet n]) names)
         \<and> length names \<le> 24)
   \<and> (uf_state f \<noteq> ''PROCESSING'' \<longrightarrow> poll w f 0 tr0 = (Inr f, tr0))
   \<and> (refetches w f tr0 gs
        \<and> (\<forall>h\<in>set (butlast (f # gs)). uf_state h = ''PROCESSING'')
        \<and> length gs \<le> 24
        \<and> (uf_state (last (f # gs)) \<noteq> ''PROCESSING'' \<or> length gs = 24)
      \<longrightarrow> poll w f 0 tr0 =
            (Inr (last (f # gs)),
             tr0 @ concat (map (\<lambda>h. [Sleep 5, FilesGet (uf_name h)]) (butlast (f # gs)))))
   \<and> (refetches w f tr0 gs
        \<and> (\<forall>h\<in>set (f # gs). uf_state h = ''PROCESSING'')
        \<and> length gs < 24
        \<and> files_get w
             (tr0 @ concat (map (\<lambda>h. [Sleep 5, FilesGet (uf_name h)]) (butlast (f # gs)))
                @ [Sleep 5])
             (uf_name (last (f # gs))) = Inl e
      \<longrightarrow> poll w f 0 tr0 =
            (Inl e, tr0 @ concat (map (\<lambda>h. [Sleep 5, FilesGet (uf_name h)]) (f # gs))))
   \<and> (reaches_upload w req tr pdf
        \<and> files_upload w (tr @ [TmpWrite (tmp_name w) pdf]) (tmp_name w) = Inr f
        \<and> refetches w f (tr @ [TmpWrite (tmp_name w) pdf, Upload (tmp_name w)]) gs
        \<and> (\<forall>h\<in>set (butlast (f # gs)). uf_state h = ''PROCESSING'')
        \<and> length gs \<le> 24
        \<and> (uf_state (last (f # gs)) \<noteq> ''PROCESSING'' \<or> length gs = 24)
      \<longrightarrow> count_gets (trace (ingest_manual w fs req)) = length gs
          \<and> response (ingest_manual w fs req) =
              (if uf_state (last (f # gs)) = ''ACTIVE''
               then \<lparr>status = 200, content_type = Some ''application/json'',
                     body = IngestBody (uf_uri (last (f # gs))) (uf_name (last (f # gs)))\<rparr>
               else \<lparr>status = 500, content_type = Some ''application/json'',
                     body = ErrorBody
                       (''File processing failed: '' @ uf_state (last (f # gs)))\<rparr>))
   \<and> (reaches_upload w req tr pdf
        \<and> files_upload w (tr @ [TmpWrite (tmp_name w) pdf]) (tmp_name w) = Inr f
        \<and> poll w f 0 (tr @ [TmpWrite (tmp_name w) pdf, Upload (tmp_name w)]) = (Inr g, tr')
        \<and> uf_state g \<noteq> ''ACTIVE''
      \<longrightarrow> response (ingest_manual w fs req) =
            \<lparr>status = 500, content_type = Some ''application/json'',
             body = ErrorBody (''File processing failed: '' @ uf_state g)\<rparr>)
   \<and> (reaches_upload w req tr pdf
        \<and> files_upload w (tr @ [TmpWrite (tmp_name w) pdf]) (tmp_name w) = Inr f
        \<and> uf_state f = ''PROCESSING''
        \<and> (\<forall>h n. \<exists>g. files_get w h n = Inr g \<and> uf_state g = ''PROCESSING'')
      \<longrightarrow> count_gets (trace (ingest_manual w fs req)) = 24
          \<and> response (ingest_manual w fs req) =
            \<lparr>status = 500, content_type = Some ''application/json'',
             body = ErrorBody ''File processing failed: PROCESSING''\<rparr>)"
proof -
  have evs: "concat (map (\<lambda>h. [Sleep 5, FilesGet (uf_name h)]) hs) =
      poll_events (map uf_name hs)" for hs :: "uploaded_file list"
    by (simp add: poll_events_def wait_interval_def comp_def)
  have ceiling: "max_wait div wait_interval = 24"
    by (simp add: max_wait_def wait_interval_def)
  have bound: "count_gets (trace (ingest_manual w fs req)) \<le> max_wait div wait_interval"
    using count_gets_ingest_manual [of w fs req] by (simp only: ceiling)
  have shape: "\<exists>names. snd (poll w f 0 tr0) = tr0 @ concat (map (\<lambda>n. [Sleep 5, FilesGet n]) names)
         \<and> length names \<le> 24"
    using poll_trace [of w f 0 tr0] by (auto simp: poll_events_def wait_interval_def)
  have stop: "uf_state f \<noteq> ''PROCESSING'' \<longrightarrow> poll w f 0 tr0 = (Inr f, tr0)"
    by (simp add: poll_stop)
  have run: "poll w f 0 t =
            (Inr (last (f # gs)),
             t @ concat (map (\<lambda>h. [Sleep 5, FilesGet (uf_name h)]) (butlast (f # gs))))"
    if c: "refetches w f t gs"
      and b: "\<forall>h\<in>set (butlast (f # gs)). uf_state h = ''PROCESSING''"
      and l: "length gs \<le> 24"
      and x: "uf_state (last (f # gs)) \<noteq> ''PROCESSING'' \<or> length gs = 24"
    for t
  proof -
    from l have l0: "0 + length gs \<le> 24" by simp
    from x have x0: "uf_state (last (f # gs)) \<noteq> ''PROCESSING'' \<or> 0 + length gs = 24" by simp
    from poll_run [OF c b l0 x0] show ?thesis by (simp only: evs mult_0_right)
  qed
  have raised: "poll w f 0 tr0 =
            (Inl e, tr0 @ concat (map (\<lambda>h. [Sleep 5, FilesGet (uf_name h)]) (f # gs)))"
    if c: "refetches w f tr0 gs"
      and b: "\<forall>h\<in>set (f # gs). uf_state h = ''PROCESSING''"
      and l: "length gs < 24"
      and x: "files_get w
             (tr0 @ concat (map (\<lambda>h. [Sleep 5, FilesGet (uf_name h)]) (butlast (f # gs)))
                @ [Sleep 5])
             (uf_name (last (f # gs))) = Inl e"
  proof -
    from l have l0: "0 + length gs < 24" by simp
    from x have x0: "files_get w
        (tr0 @ poll_events (map uf_name (butlast (f # gs))) @ [Sleep wait_interval])
        (uf_name (last (f # gs))) = Inl e"
      by (simp only: evs) (simp add: wait_interval_def)
    from poll_run_raise [OF c b l0 x0] show ?thesis by (simp only: evs mult_0_right)
  qed
  have answered: "count_gets (trace (ingest_manual w fs req)) = length gs
          \<and> response (ingest_manual w fs req) =
              (if uf_state (last (f # gs)) = ''ACTIVE''
               then \<lparr>status = 200, content_type = Some ''application/json'',
                     body = IngestBody (uf_uri (last (f # gs))) (uf_name (last (f # gs)))\<rparr>
               else \<lparr>status = 500, content_type = Some ''application/json'',
                     body = ErrorBody
                       (''File processing failed: '' @ uf_state (last (f # gs)))\<rparr>)"
    if r: "reaches_upload w req tr pdf"
      and u: "files_upload w (tr @ [TmpWrite (tmp_name w) pdf]) (tmp_name w) = Inr f"
      and c: "refetches w f (tr @ [TmpWrite (tmp_name w) pdf, Upload (tmp_name w)]) gs"
      and b: "\<forall>h\<in>set (butlast (f # gs)). uf_state h = ''PROCESSING''"
      and l: "length gs \<le> 24"
      and x: "uf_state (last (f # gs)) \<noteq> ''PROCESSING'' \<or> length gs = 24"
  proof -
    let ?g = "last (f # gs)"
    let ?names = "map uf_name (butlast (f # gs))"
    from r obtain url where "acquire_pdf w [] url = (Inr (Inr pdf), tr)"
      by (auto simp: reaches_upload_def reaches_tmp_file_def split: sum.splits)
    with acquire_pdf_gets [of w "[]" url] obtain urls where tr: "tr = map Get urls" by auto
    have p: "poll w f 0 ((tr @ [TmpWrite (tmp_name w) pdf]) @ [Upload (tmp_name w)]) =
        (Inr ?g, (tr @ [TmpWrite (tmp_name w) pdf, Upload (tmp_name w)]) @ poll_events ?names)"
      using run [OF c b l x] by (simp only: evs) simp
    note up = upload_and_poll_done [OF u p]
    have "trace (ingest_manual w fs req) =
        ((tr @ [TmpWrite (tmp_name w) pdf, Upload (tmp_name w)]) @ poll_events ?names)
          @ [Unlink (tmp_name w)]"
      unfolding ingest_manual_reached [OF r] up by simp
    then have "trace (ingest_manual w fs req) =
        map Get urls @ TmpWrite (tmp_name w) pdf # Upload (tmp_name w) # poll_events ?names
          @ [Unlink (tmp_name w)]"
      by (simp only: tr) simp
    then have "count_gets (trace (ingest_manual w fs req)) = length gs"
      by (simp only: count_gets_run) simp
    moreover have "response (ingest_manual w fs req) =
              (if uf_state ?g = ''ACTIVE''
               then \<lparr>status = 200, content_type = Some ''application/json'',
                     body = IngestBody (uf_uri ?g) (uf_name ?g)\<rparr>
               else \<lparr>status = 500, content_type = Some ''application/json'',
                     body = ErrorBody (''File processing failed: '' @ uf_state ?g)\<rparr>)"
      unfolding ingest_manual_reached [OF r] up by (simp add: json_response_def)
    ultimately show ?thesis by (rule conjI)
  qed
  have failed: "response (ingest_manual w fs req) =
            \<lparr>status = 500, content_type = Some ''application/json'',
             body = ErrorBody (''File processing failed: '' @ uf_state g)\<rparr>"
    if r: "reaches_upload w req tr pdf"
      and u: "files_upload w (tr @ [TmpWrite (tmp_name w) pdf]) (tmp_name w) = Inr f"
      and p: "poll w f 0 (tr @ [TmpWrite (tmp_name w) pdf, Upload (tmp_name w)]) = (Inr g, tr')"
      and s: "uf_state g \<noteq> ''ACTIVE''"
  proof -
    have "upload_and_poll w (tr @ [TmpWrite (tmp_name w) pdf]) (tmp_name w) =
      (Inr (json_response 500 (ErrorBody (''File processing failed: '' @ uf_state g))), tr')"
      using upload_and_poll_failed [OF u _ s, of tr'] p by simp
    then show ?thesis
      by (simp add: ingest_manual_reached [OF r] json_response_def)
  qed
  have busy: "count_gets (trace (ingest_manual w fs req)) = 24
          \<and> response (ingest_manual w fs req) =
            \<lparr>status = 500, content_type = Some ''application/json'',
             body = ErrorBody ''File processing failed: PROCESSING''\<rparr>"
    if r: "reaches_upload w req tr pdf"
      and u: "files_upload w (tr @ [TmpWrite (tmp_name w) pdf]) (tmp_name w) = Inr f"
      and s: "uf_state f = ''PROCESSING''"
      and a: "\<forall>h n. \<exists>g. files_get w h n = Inr g \<and> uf_state g = ''PROCESSING''"
  proof -
    from r obtain url where "acquire_pdf w [] url = (Inr (Inr pdf), tr)"
      by (auto simp: reaches_upload_def reaches_tmp_file_def split: sum.splits)
    with acquire_pdf_gets [of w "[]" url] obtain urls where tr: "tr = map Get urls" by auto
    obtain g names where
      p: "poll w f (5 * 0) (tr @ [TmpWrite (tmp_name w) pdf, Upload (tmp_name w)]) =
            (Inr g, (tr @ [TmpWrite (tmp_name w) pdf, Upload (tmp_name w)]) @ poll_events names)"
      and gs: "uf_state g = ''PROCESSING''" and l: "length names = 24 - 0"
      using poll_always_processing [OF a s, of 0] by blast
    have up: "upload_and_poll w (tr @ [TmpWrite (tmp_name w) pdf]) (tmp_name w) =
      (Inr (json_response 500 (ErrorBody (''File processing failed: '' @ uf_state g))),
       (tr @ [TmpWrite (tmp_name w) pdf, Upload (tmp_name w)]) @ poll_events names)"
      using upload_and_poll_failed [OF u, of g] p gs by simp
    have "trace (ingest_manual w fs req) =
        map Get urls @ TmpWrite (tmp_name w) pdf # Upload (tmp_name w) # poll_events names
          @ [Unlink (tmp_name w)]"
      using up by (simp add: ingest_manual_reached [OF r] tr)
    then have "count_gets (trace (ingest_manual w fs req)) = 24"
      using l by (simp only: count_gets_run)
    moreover have "response (ingest_manual w fs req) =
            \<lparr>status = 500, content_type = Some ''application/json'',
             body = ErrorBody ''File processing failed: PROCESSING''\<rparr>"
      by (simp add: ingest_manual_reached [OF r] up gs json_response_def)
    ultimately show ?thesis by blast
  qed
  show ?thesis
  proof (intro conjI)
    show "count_gets (trace (ingest_manual w fs req)) \<le> max_wait div wait_interval"
      by (rule bound)
    show "max_wait div wait_interval = 24" by (rule ceiling)
    show "\<exists>names. snd (poll w f 0 tr0) = tr0 @ concat (map (\<lambda>n. [Sleep 5, FilesGet n]) names)
         \<and> length names \<le> 24"
      by (rule shape)
    show "uf_state f \<noteq> ''PROCESSING'' \<longrightarrow> poll w f 0 tr0 = (Inr f, tr0)"
      by (rule stop)
    show "refetches w f tr0 gs
        \<and> (\<forall>h\<in>set (butlast (f # gs)). uf_state h = ''PROCESSING'')
        \<and> length gs \<le> 24
        \<and> (uf_state (last (f # gs)) \<noteq> ''PROCESSING'' \<or> length gs = 24)
      \<longrightarrow> poll w f 0 tr0 =
            (Inr (last (f # gs)),
             tr0 @ concat (map (\<lambda>h. [Sleep 5, FilesGet (uf_name h)]) (butlast (f # gs))))"
      using run [of tr0] by (intro impI) (elim conjE)
    show "refetches w f tr0 gs
        \<and> (\<forall>h\<in>set (f # gs). uf_state h = ''PROCESSING'')
        \<and> length gs < 24
        \<and> files_get w
             (tr0 @ concat (map (\<lambda>h. [Sleep 5, FilesGet (uf_name h)]) (butlast (f # gs)))
                @ [Sleep 5])
             (uf_name (last (f # gs))) = Inl e
      \<longrightarrow> poll w f 0 tr0 =
            (Inl e, tr0 @ concat (map (\<lambda>h. [Sleep 5, FilesGet (uf_name h)]) (f # gs)))"
      using raised by (intro impI) (elim conjE)
    show "reaches_upload w req tr pdf
        \<and> files_upload w (tr @ [TmpWrite (tmp_name w) pdf]) (tmp_name w) = Inr f
        \<and> refetches w f (tr @ [TmpWrite (tmp_name w) pdf, Upload (tmp_name w)]) gs
        \<and> (\<forall>h\<in>set (butlast (f # gs)). uf_state h = ''PROCESSING'')
        \<and> length gs \<le> 24
        \<and> (uf_state (last (f # gs)) \<noteq> ''PROCESSING'' \<or> length gs = 24)
      \<longrightarrow> count_gets (trace (ingest_manual w fs req)) = length gs
          \<and> response (ingest_manual w fs req) =
              (if uf_state (last (f # gs)) = ''ACTIVE''
               then \<lparr>status = 200, content_type = Some ''application/json'',
                     body = IngestBody (uf_uri (last (f # gs))) (uf_name (last (f # gs)))\<rparr>
               else \<lparr>status = 500, content_type = Some ''application/json'',
                     body = ErrorBody
                       (''File processing failed: '' @ uf_state (last (f # gs)))\<rparr>)"
      using answered by (intro impI) (elim conjE)
    show "reaches_upload w req tr pdf
        \<and> files_upload w (tr @ [TmpWrite (tmp_name w) pdf]) (tmp_name w) = Inr f
        \<and> poll w f 0 (tr @ [TmpWrite (tmp_name w) pdf, Upload (tmp_name w)]) = (Inr g, tr')
        \<and> uf_state g \<noteq> ''ACTIVE''
      \<longrightarrow> response (ingest_manual w fs req) =
            \<lparr>status = 500, content_type = Some ''application/json'',
             body = ErrorBody (''File processing failed: '' @ uf_state g)\<rparr>"
      using failed by (intro impI) (elim conjE)
    show "reaches_upload w req tr pdf
        \<and> files_upload w (tr @ [TmpWrite (tmp_name w) pdf]) (tmp_name w) = Inr f
        \<and> uf_state f = ''PROCESSING''
        \<and> (\<forall>h n. \<exists>g. files_get w h n = Inr g \<and> uf_state g = ''PROCESSING'')
      \<longrightarrow> count_gets (trace (ingest_manual w fs req)) = 24
          \<and> response (ingest_manual w fs req) =
            \<lparr>status = 500, content_type = Some ''application/json'',
             body = ErrorBody ''File processing failed: PROCESSING''\<rparr>"
      using busy by (intro impI) (elim conjE)
  qed
qed

theorem poll_loop_bounded_witness:
  "count_gets (trace (ingest_manual
      (pdf_world\<lparr>files_upload := (\<lambda>tr path. Inr processing_file),
                  files_get := (\<lambda>tr n. if count_gets tr = 0 then Inr processing_file
                     else Inr (processing_file\<lparr>uf_state := ''FAILED''\<rparr>))\<rparr>)
      {} manual_request)) = 2
   \<and> response (ingest_manual
      (pdf_world\<lparr>files_upload := (\<lambda>tr path. Inr processing_file),
                  files_get := (\<lambda>tr n. if count_gets tr = 0 then Inr processing_file
                     else Inr (processing_file\<lparr>uf_state := ''FAILED''\<rparr>))\<rparr>)
      {} manual_request) =
     \<lparr>status = 500, content_type = Some ''application/json'',
      body = ErrorBody ''File processing failed: FAILED''\<rparr>
   \<and> count_gets (trace (ingest_manual
      (pdf_world\<lparr>files_upload := (\<lambda>tr path. Inr processing_file),
                  files_get := (\<lambda>tr n. Inr (processing_file\<lparr>uf_state := ''ACTIVE''\<rparr>))\<rparr>)
      {} manual_request)) = 1
   \<and> response (ingest_manual
      (pdf_world\<lparr>files_upload := (\<lambda>tr path. Inr processing_file),
                  files_get := (\<lambda>tr n. Inr (processing_file\<lparr>uf_state := ''ACTIVE''\<rparr>))\<rparr>)
      {} manual_request) =
     \<lparr>status = 200, content_type = Some ''application/json'',
      body = IngestBody ''https://generativelanguage.googleapis.com/v1beta/files/m1''
               ''files/m1''\<rparr>
   \<and> count_gets (trace (ingest_manual
      (pdf_world\<lparr>files_upload := (\<lambda>tr path. Inr processing_file),
                  files_get := (\<lambda>tr n. Inr processing_file)\<rparr>) {} manual_request)) = 24
   \<and> response (ingest_manual
      (pdf_world\<lparr>files_upload := (\<lambda>tr path. Inr processing_file),
                  files_get := (\<lambda>tr n. Inr processing_file)\<rparr>) {} manual_request) =
     \<lparr>status = 500, content_type = Some ''application/json'',
      body = ErrorBody ''File processing failed: PROCESSING''\<rparr>"
proof -
  let ?failed = "processing_file\<lparr>uf_state := ''FAILED''\<rparr>"
  let ?active = "processing_file\<lparr>uf_state := ''ACTIVE''\<rparr>"
  let ?w1 = "pdf_world\<lparr>files_upload := (\<lambda>tr path. Inr processing_file),
                  files_get := (\<lambda>tr n. if count_gets tr = 0 then Inr processing_file
                     else Inr ?failed)\<rparr>"
  let ?w2 = "pdf_world\<lparr>files_upload := (\<lambda>tr path. Inr processing_file),
                  files_get := (\<lambda>tr n. Inr ?active)\<rparr>"
  let ?w = "pdf_world\<lparr>files_upload := (\<lambda>tr path. Inr processing_file),
                  files_get := (\<lambda>tr n. Inr processing_file)\<rparr>"
  let ?tr = "[Get (JStr ''https://library.abb.com/manual.pdf'')]"
  have s: "uf_state processing_file = ''PROCESSING''"
    by (simp add: processing_file_def)

  have r1: "reaches_upload ?w1 manual_request ?tr ''%PDF-1.7''"
    by (rule pdf_world_reaches_upload) (simp_all add: pdf_world_def offline_world_def)
  have u1: "files_upload ?w1 (?tr @ [TmpWrite (tmp_name ?w1) ''%PDF-1.7'']) (tmp_name ?w1) =
             Inr processing_file"
    by simp
  have c1: "refetches ?w1 processing_file
      (?tr @ [TmpWrite (tmp_name ?w1) ''%PDF-1.7'', Upload (tmp_name ?w1)])
      [processing_file, ?failed]"
    by (simp add: count_gets_def)
  have b1: "\<forall>h\<in>set (butlast (processing_file # [processing_file, ?failed])).
      uf_state h = ''PROCESSING''"
    by (simp add: s)
  have l1: "length [processing_file, ?failed] \<le> 24" by simp
  have x1: "uf_state (last (processing_file # [processing_file, ?failed])) \<noteq> ''PROCESSING''
      \<or> length [processing_file, ?failed] = 24"
    by simp
  note part1 =
    poll_loop_bounded [where w = ?w1 and fs = "{}" and req = manual_request
      and f = processing_file and gs = "[processing_file, ?failed]" and tr = ?tr
      and pdf = "''%PDF-1.7''",
      THEN conjunct2, THEN conjunct2, THEN conjunct2, THEN conjunct2, THEN conjunct2,
      THEN conjunct2, THEN conjunct1]
  have "count_gets (trace (ingest_manual ?w1 {} manual_request)) =
          length [processing_file, ?failed]
        \<and> response (ingest_manual ?w1 {} manual_request) =
            (if uf_state (last (processing_file # [processing_file, ?failed])) = ''ACTIVE''
             then \<lparr>status = 200, content_type = Some ''application/json'',
                   body = IngestBody
                     (uf_uri (last (processing_file # [processing_file, ?failed])))
                     (uf_name (last (processing_file # [processing_file, ?failed])))\<rparr>
             else \<lparr>status = 500, content_type = Some ''application/json'',
                   body = ErrorBody (''File processing failed: ''
                     @ uf_state (last (processing_file # [processing_file, ?failed])))\<rparr>)"
    by (rule mp [OF part1]) (intro conjI r1 u1 c1 b1 l1 x1)
  then have res1: "count_gets (trace (ingest_manual ?w1 {} manual_request)) = 2
        \<and> response (ingest_manual ?w1 {} manual_request) =
            \<lparr>status = 500, content_type = Some ''application/json'',
             body = ErrorBody ''File processing failed: FAILED''\<rparr>"
    by simp

  have r2: "reaches_upload ?w2 manual_request ?tr ''%PDF-1.7''"
    by (rule pdf_world_reaches_upload) (simp_all add: pdf_world_def offline_world_def)
  have u2: "files_upload ?w2 (?tr @ [TmpWrite (tmp_name ?w2) ''%PDF-1.7'']) (tmp_name ?w2) =
             Inr processing_file"
    by simp
  have c2: "refetches ?w2 processing_file
      (?tr @ [TmpWrite (tmp_name ?w2) ''%PDF-1.7'', Upload (tmp_name ?w2)]) [?active]"
    by simp
  have b2: "\<forall>h\<in>set (butlast (processing_file # [?active])). uf_state h = ''PROCESSING''"
    by (simp add: s)
  have l2: "length [?active] \<le> 24" by simp
  have x2: "uf_state (last (processing_file # [?active])) \<noteq> ''PROCESSING''
      \<or> length [?active] = 24"
    by simp
  note part2 =
    poll_loop_bounded [where w = ?w2 and fs = "{}" and req = manual_request
      and f = processing_file and gs = "[?active]" and tr = ?tr and pdf = "''%PDF-1.7''",
      THEN conjunct2, THEN conjunct2, THEN conjunct2, THEN conjunct2, THEN conjunct2,
      THEN conjunct2, THEN conjunct1]
  have "count_gets (trace (ingest_manual ?w2 {} manual_request)) = length [?active]
        \<and> response (ingest_manual ?w2 {} manual_request) =
            (if uf_state (last (processing_file # [?active])) = ''ACTIVE''
             then \<lparr>status = 200, content_type = Some ''application/json'',
                   body = IngestBody (uf_uri (last (processing_file # [?active])))
                     (uf_name (last (processing_file # [?active])))\<rparr>
             else \<lparr>status = 500, content_type = Some ''application/json'',
                   body = ErrorBody (''File processing failed: ''
                     @ uf_state (last (processing_file # [?active])))\<rparr>)"
    by (rule mp [OF part2]) (intro conjI r2 u2 c2 b2 l2 x2)
  then have res2: "count_gets (trace (ingest_manual ?w2 {} manual_request)) = 1
        \<and> response (ingest_manual ?w2 {} manual_request) =
            \<lparr>status = 200, content_type = Some ''application/json'',
             body = IngestBody ''https://generativelanguage.googleapis.com/v1beta/files/m1''
                      ''files/m1''\<rparr>"
    by (simp add: processing_file_def)

  have r: "reaches_upload ?w manual_request ?tr ''%PDF-1.7''"
    by (rule pdf_world_reaches_upload) (simp_all add: pdf_world_def offline_world_def)
  have u: "files_upload ?w (?tr @ [TmpWrite (tmp_name ?w) ''%PDF-1.7'']) (tmp_name ?w) =
             Inr processing_file"
    by simp
  have a: "\<forall>h n. \<exists>g. files_get ?w h n = Inr g \<and> uf_state g = ''PROCESSING''"
    by (simp add: s)
  note last_part =
    poll_loop_bounded [where w = ?w and fs = "{}" and req = manual_request
      and f = processing_file and tr = ?tr and pdf = "''%PDF-1.7''",
      THEN conjunct2, THEN conjunct2, THEN conjunct2, THEN conjunct2, THEN conjunct2,
      THEN conjunct2, THEN conjunct2, THEN conjunct2]
  have res: "count_gets (trace (ingest_manual ?w {} manual_request)) = 24
        \<and> response (ingest_manual ?w {} manual_request) =
            \<lparr>status = 500, content_type = Some ''application/json'',
             body = ErrorBody ''File processing failed: PROCESSING''\<rparr>"
    by (rule mp [OF last_part]) (intro conjI r u s a)
  from res1 res2 res show ?thesis by (simp only:) 
qed

section \<open>Chat Responder: claims\<close>

text \<open>
  C9. For a chat request with a truthy \<open>user_message\<close> and both file fields present, when
  \<open>Part.from_uri\<close> raises, the exception is swallowed: the generation service is called
  once, with the user message as the only content, and the answer of the turn is the
  answer of that call alone, a 200 with the generated text whenever the call returns.
\<close>

theorem chat_agent_file_reference_swallowed:
  assumes "req_method req \<noteq> ''OPTIONS''"
    and "environ w ''GEMINI_API_KEY'' = Some key" and "key \<noteq> []"
    and "get_json req = Inr (JObj kvs)"
    and "map_of kvs ''user_message'' = Some user_message" and "truthy user_message"
    and "map_of kvs ''file_uri'' = Some file_uri" and "truthy file_uri"
    and "map_of kvs ''file_name'' = Some file_name" and "truthy file_name"
    and "part_from_uri w file_uri ''application/pdf'' = Inl e"
  shows "snd (chat_agent w req) =
           [PartFromUri file_uri,
            Generate ''gemini-2.0-flash'' [UserMessage user_message] system_prompt]
       \<and> fst (chat_agent w req) =
           (case generate_content w [PartFromUri file_uri] ''gemini-2.0-flash''
                   [UserMessage user_message] system_prompt of
              Inl x \<Rightarrow> \<lparr>status = 500, content_type = Some ''application/json'', body = ExnBody x\<rparr>
            | Inr txt \<Rightarrow>
                \<lparr>status = 200, content_type = Some ''application/json'', body = ChatBody txt\<rparr>)
       \<and> (generate_content w [PartFromUri file_uri] ''gemini-2.0-flash''
             [UserMessage user_message] system_prompt = Inr txt \<longrightarrow>
           fst (chat_agent w req) =
             \<lparr>status = 200, content_type = Some ''application/json'', body = ChatBody txt\<rparr>)"
proof -
  have fc: "file_contents w file_name file_uri = ([], [PartFromUri file_uri])"
    using assms(8,10,11) by (simp add: file_contents_def)
  have "chat_try w req =
      (case generate_content w [PartFromUri file_uri] ''gemini-2.0-flash''
              [UserMessage user_message] system_prompt of
         Inl x \<Rightarrow> Inl x
       | Inr txt \<Rightarrow> Inr (json_response 200 (ChatBody txt)),
       [PartFromUri file_uri,
        Generate ''gemini-2.0-flash'' [UserMessage user_message] system_prompt])"
    using assms(4,5,6,7,9) fc by (simp add: chat_try_def split: sum.splits)
  then show ?thesis
    using assms(1) client_configured [OF assms(2,3)]
    by (simp add: chat_agent_def json_response_def split: sum.splits)
qed

theorem chat_agent_file_reference_swallowed_witness:
  "chat_agent
     (offline_world
        \<lparr>environ := [''GEMINI_API_KEY'' \<mapsto> ''secret''],
         generate_content := (\<lambda>tr model contents instruction.
            if contents = [UserMessage (JStr ''What is the rated current?'')]
            then Inr (Some ''The manual does not state it.'') else Inl (Raised ''unexpected''))\<rparr>)
     \<lparr>req_method = ''POST'',
      get_json = Inr (JObj [(''user_message'', JStr ''What is the rated current?''),
                            (''file_uri'', JInt 7), (''file_name'', JStr ''files/m1'')])\<rparr> =
   (\<lparr>status = 200, content_type = Some ''application/json'',
     body = ChatBody (Some ''The manual does not state it.'')\<rparr>,
    [PartFromUri (JInt 7),
     Generate ''gemini-2.0-flash'' [UserMessage (JStr ''What is the rated current?'')]
       system_prompt])"
proof -
  let ?msg = "JStr ''What is the rated current?''"
  let ?kvs = "[(''user_message'', ?msg), (''file_uri'', JInt 7), (''file_name'', JStr ''files/m1'')]"
  let ?req = "\<lparr>req_method = ''POST'', get_json = Inr (JObj ?kvs)\<rparr>"
  let ?w = "offline_world
        \<lparr>environ := [''GEMINI_API_KEY'' \<mapsto> ''secret''],
         generate_content := (\<lambda>tr model contents instruction.
            if contents = [UserMessage ?msg]
            then Inr (Some ''The manual does not state it.'') else Inl (Raised ''unexpected''))\<rparr>"
  have h1: "req_method ?req \<noteq> ''OPTIONS''" by simp
  have h2: "environ ?w ''GEMINI_API_KEY'' = Some ''secret''" by simp
  have h3: "''secret'' \<noteq> []" by simp
  have h4: "get_json ?req = Inr (JObj ?kvs)" by simp
  have h5: "map_of ?kvs ''user_message'' = Some ?msg" by simp
  have h6: "truthy ?msg" by simp
  have h7: "map_of ?kvs ''file_uri'' = Some (JInt 7)" by simp
  have h8: "truthy (JInt 7)" by simp
  have h9: "map_of ?kvs ''file_name'' = Some (JStr ''files/m1'')" by simp
  have h10: "truthy (JStr ''files/m1'')" by simp
  have h11: "part_from_uri ?w (JInt 7) ''application/pdf'' = Inl (Raised ''invalid uri'')"
    by (simp add: offline_world_def)
  have g: "generate_content ?w [PartFromUri (JInt 7)] ''gemini-2.0-flash''
             [UserMessage ?msg] system_prompt = Inr (Some ''The manual does not state it.'')"
    by simp
  from chat_agent_file_reference_swallowed [OF h1 h2 h3 h4 h5 h6 h7 h8 h9 h10 h11]
  have "snd (chat_agent ?w ?req) =
           [PartFromUri (JInt 7), Generate ''gemini-2.0-flash'' [UserMessage ?msg] system_prompt]"
    and "fst (chat_agent ?w ?req) =
           \<lparr>status = 200, content_type = Some ''application/json'',
            body = ChatBody (Some ''The manual does not state it.'')\<rparr>"
    by (simp_all only: g sum.case)
  then show ?thesis by (simp add: prod_eq_iff)
qed

end
